theory Spec2Isabelle
  imports Main "HOL-Library.AList" "HOL-Library.Char_ord" "HOL-Library.List_Lexorder" "HOL-Library.Multiset"
    "HOL-Library.Product_Lexorder"
begin

section \<open>The node algebra of \<^verbatim>\<open>sympy/core/basic.py\<close>\<close>

subsection \<open>Data model\<close>

text \<open>
  Modelled from the spec: the operator kinds. \<^verbatim>\<open>Basic\<close> and \<^verbatim>\<open>Atom\<close> are declared in
  \<^verbatim>\<open>basic.py\<close>; the other classes are declared in other modules and are the ones that
  \<^verbatim>\<open>basic.py\<close> refers to through \<^verbatim>\<open>C.Pow\<close>, \<^verbatim>\<open>C.Dummy\<close>, \<^verbatim>\<open>C.Symbol\<close> and the flags
  \<^verbatim>\<open>is_Add\<close>, \<^verbatim>\<open>is_Mul\<close>, \<^verbatim>\<open>is_Wild\<close>, \<^verbatim>\<open>is_Integer\<close>, \<^verbatim>\<open>is_Function\<close>: sums, products,
  powers, symbols, dummy variables, wildcards, integers and applied functions.
  \<open>Function f\<close> is the class of an applied function named \<open>f\<close>. \<open>Pow\<close> is written
  \<open>PowC\<close> (the plain name is taken by the power set).
\<close>

datatype cls = Basic | Atom | Symbol | Dummy | Wild | Integer | Add | Mul | PowC | Function string

text \<open>\<^verbatim>\<open>type(self).__name__\<close>\<close>

fun cls_name :: "cls \<Rightarrow> string" where
  "cls_name Basic = ''Basic''"
| "cls_name Atom = ''Atom''"
| "cls_name Symbol = ''Symbol''"
| "cls_name Dummy = ''Dummy''"
| "cls_name Wild = ''Wild''"
| "cls_name Integer = ''Integer''"
| "cls_name Add = ''Add''"
| "cls_name Mul = ''Mul''"
| "cls_name PowC = ''Pow''"
| "cls_name (Function f) = f"

text \<open>
  Modelled from the spec: the class hierarchy, as far as it is declared outside
  \<^verbatim>\<open>basic.py\<close>. \<open>issubclass c d\<close> is \<^verbatim>\<open>issubclass(c, d)\<close>: every class derives from
  \<^verbatim>\<open>Basic\<close> (\<^verbatim>\<open>class Atom(Basic)\<close> is in the file), the leaf classes derive from \<^verbatim>\<open>Atom\<close>,
  and \<^verbatim>\<open>Dummy\<close> and \<^verbatim>\<open>Wild\<close> are special symbols and derive from \<^verbatim>\<open>Symbol\<close>.
\<close>

fun issubclass :: "cls \<Rightarrow> cls \<Rightarrow> bool" where
  "issubclass c Basic = True"
| "issubclass c Atom = (c = Atom \<or> c = Symbol \<or> c = Dummy \<or> c = Wild \<or> c = Integer)"
| "issubclass c Symbol = (c = Symbol \<or> c = Dummy \<or> c = Wild)"
| "issubclass c d = (c = d)"

text \<open>
  A plain Python value inside \<^verbatim>\<open>_hashable_content()\<close>: the data a leaf class adds
  (a name, a number, a flag).
\<close>

datatype raw = RStr string | RInt int | RBool bool

text \<open>
  A node is an instance of \<^verbatim>\<open>Basic\<close>: its class, the plain values its class puts in
  front of \<^verbatim>\<open>_hashable_content()\<close> (none for a class that keeps the default, which is
  \<^verbatim>\<open>self._args\<close>), the slot \<^verbatim>\<open>_assume_type_keys\<close> (\<^verbatim>\<open>None\<close> or a frozenset of tag names),
  the dictionary \<^verbatim>\<open>_assumptions\<close> (tag name to \<^verbatim>\<open>True\<close>/\<^verbatim>\<open>False\<close>), and \<^verbatim>\<open>_args\<close>.
  The slot \<^verbatim>\<open>_mhash\<close> only caches the value that \<^verbatim>\<open>__hash__\<close> computes and is left out.
\<close>

datatype node = Node (ntype: cls) (payload: "raw list")
  (assume_type_keys: "string list option") (assumptions: "(string \<times> bool) list")
  (args: "node list")

text \<open>Any Python object that may stand where a node is expected.\<close>

datatype pyval = VNode node | VInt int | VObj string

text \<open>
  Modelled from the spec: instances of the leaf classes, which are declared outside
  \<^verbatim>\<open>basic.py\<close>. A leaf is its own hashable content: a symbol has its commutativity flag and
  its name, an integer its value, a dummy variable also its index (the value of the class
  counter when it was made, so that every new dummy differs from all earlier ones). \<open>NCSym\<close>
  is a symbol made with \<^verbatim>\<open>commutative=False\<close>. \<open>Op c xs\<close> is \<^verbatim>\<open>Basic.__new__(c, *xs)\<close>
  without assumptions: the node of class \<open>c\<close> with the arguments \<open>xs\<close>, as it is, not
  evaluated. It writes down a given tree, and it is the constructor of the class
  \<^verbatim>\<open>Basic\<close> itself.
\<close>

definition Sym :: "string \<Rightarrow> node" where
  "Sym name = Node Symbol [RBool True, RStr name] None [(''commutative'', True)] []"

definition NCSym :: "string \<Rightarrow> node" where
  "NCSym name = Node Symbol [RBool False, RStr name] (Some [''commutative''])
     [(''commutative'', False)] []"

definition IntN :: "int \<Rightarrow> node" where
  "IntN i = Node Integer [RInt i] None [(''commutative'', True)] []"

definition DummyN :: "nat \<Rightarrow> node" where
  "DummyN i = Node Dummy [RBool True, RStr ''Dummy'', RInt (int i)] None [(''commutative'', True)] []"

definition WildN :: "string \<Rightarrow> node" where
  "WildN name = Node Wild [RBool True, RStr name] None [(''commutative'', True)] []"

definition Op :: "cls \<Rightarrow> node list \<Rightarrow> node" where
  "Op c xs = Node c [] None [] xs"

text \<open>
  Modelled from the spec: \<^verbatim>\<open>_sympify\<close> (module \<^verbatim>\<open>sympify\<close>, not in this file) converts
  a non-node operand into a node and raises \<^verbatim>\<open>SympifyError\<close> (\<open>None\<close>) when it cannot;
  a node is returned as it is, a Python integer becomes an \<^verbatim>\<open>Integer\<close> leaf.
\<close>

fun sympify_strict :: "pyval \<Rightarrow> node option" where
  "sympify_strict (VNode n) = Some n"
| "sympify_strict (VInt i) = Some (IntN i)"
| "sympify_strict (VObj s) = None"

subsection \<open>Equality and inequality\<close>

fun psize :: "pyval \<Rightarrow> nat" where
  "psize (VNode n) = size n"
| "psize (VInt i) = 0"
| "psize (VObj s) = 0"

text \<open>\<^verbatim>\<open>self._assume_type_keys == other._assume_type_keys\<close>: \<^verbatim>\<open>None\<close> or frozensets.\<close>

definition keys_eq :: "node \<Rightarrow> node \<Rightarrow> bool" where
  "keys_eq a b = (map_option set (assume_type_keys a) = map_option set (assume_type_keys b))"

text \<open>
  \<^verbatim>\<open>Basic.__eq__\<close>. \<open>node_eq\<close> is the method; \<open>eq_widen\<close> is the branch taken when the types
  differ: the two \<^verbatim>\<open>while\<close> loops that strip powers with exponent \<^verbatim>\<open>== 1\<close> (first from
  \<^verbatim>\<open>self\<close>, then from \<^verbatim>\<open>other\<close>), the conversion of \<^verbatim>\<open>other\<close>, the second type test and
  the comparison of contents; \<open>tuple_eq\<close> is \<^verbatim>\<open>==\<close> on the tuples of arguments, which
  calls \<^verbatim>\<open>__eq__\<close> on each pair. A power node has \<^verbatim>\<open>base = args[0]\<close> and
  \<^verbatim>\<open>exp = args[1]\<close>; a node of class \<^verbatim>\<open>Pow\<close> with fewer than two arguments, which the
  constructor of powers never builds, is not stripped. The two lemmas give the measure
  of the termination proof.
\<close>

lemma size_args_less: "size_list size (args n) < size n"
  by (cases n) simp

lemma size_args_less3:
  "3 * size_list size (args n) < 3 + 3 * size n"
  "3 * size_list size (args n) < 3 * size n + 3"
  using size_args_less [of n] by simp_all

function node_eq :: "node \<Rightarrow> pyval \<Rightarrow> bool"
  and eq_widen :: "node \<Rightarrow> pyval \<Rightarrow> bool"
  and eq_strip_other :: "node \<Rightarrow> pyval \<Rightarrow> bool"
  and tuple_eq :: "node list \<Rightarrow> node list \<Rightarrow> bool"
where
  "node_eq self (VNode other) =
     (if ntype self \<noteq> ntype other then eq_widen self (VNode other)
      else payload self = payload other \<and> tuple_eq (args self) (args other)
           \<and> keys_eq self other)"
| "node_eq self (VInt i) = eq_widen self (VInt i)"
| "node_eq self (VObj s) = eq_widen self (VObj s)"
| "eq_widen (Node c p k kv (b # e # rest)) other =
     (if issubclass c PowC \<and> node_eq e (VInt 1) then eq_widen b other
      else eq_strip_other (Node c p k kv (b # e # rest)) other)"
| "eq_widen (Node c p k kv []) other = eq_strip_other (Node c p k kv []) other"
| "eq_widen (Node c p k kv [b]) other = eq_strip_other (Node c p k kv [b]) other"
| "eq_strip_other self (VNode (Node c p k kv (b # e # rest))) =
     (if issubclass c PowC \<and> node_eq e (VInt 1) then eq_strip_other self (VNode b)
      else if ntype self \<noteq> c then False
      else payload self = p \<and> tuple_eq (args self) (b # e # rest)
           \<and> keys_eq self (Node c p k kv (b # e # rest)))"
| "eq_strip_other self (VNode (Node c p k kv [])) =
     (if ntype self \<noteq> c then False
      else payload self = p \<and> tuple_eq (args self) [] \<and> keys_eq self (Node c p k kv []))"
| "eq_strip_other self (VNode (Node c p k kv [b])) =
     (if ntype self \<noteq> c then False
      else payload self = p \<and> tuple_eq (args self) [b] \<and> keys_eq self (Node c p k kv [b]))"
| "eq_strip_other self (VInt i) =
     (if ntype self \<noteq> ntype (IntN i) then False
      else payload self = payload (IntN i) \<and> tuple_eq (args self) (args (IntN i))
           \<and> keys_eq self (IntN i))"
| "eq_strip_other self (VObj s) = False"
| "tuple_eq [] [] = True"
| "tuple_eq (x # xs) (y # ys) = (node_eq x (VNode y) \<and> tuple_eq xs ys)"
| "tuple_eq [] (y # ys) = False"
| "tuple_eq (x # xs) [] = False"
  by pat_completeness auto
termination
proof (relation "measure (\<lambda>x. case x of
        Inl (Inl (s, v)) \<Rightarrow> 3 * (size s + psize v) + 2
      | Inl (Inr (s, v)) \<Rightarrow> 3 * (size s + psize v) + 1
      | Inr (Inl (s, v)) \<Rightarrow> 3 * (size s + psize v)
      | Inr (Inr (xs, ys)) \<Rightarrow> 3 * (size_list size xs + size_list size ys))")
  fix self :: node and other :: node
  show "((Inr (Inr (args self, args other))), Inl (Inl (self, VNode other))) \<in> measure (\<lambda>x. case x of
        Inl (Inl (s, v)) \<Rightarrow> 3 * (size s + psize v) + 2
      | Inl (Inr (s, v)) \<Rightarrow> 3 * (size s + psize v) + 1
      | Inr (Inl (s, v)) \<Rightarrow> 3 * (size s + psize v)
      | Inr (Inr (xs, ys)) \<Rightarrow> 3 * (size_list size xs + size_list size ys))"
    using size_args_less [of self] size_args_less [of other] by simp
qed (auto simp: IntN_def size_args_less size_args_less3)

text \<open>
  \<^verbatim>\<open>Basic.__ne__\<close>. It has the type test and the conversion of \<^verbatim>\<open>__eq__\<close>, but not the
  two loops. \<^verbatim>\<open>st != ot\<close> on tuples is the negation of \<^verbatim>\<open>st == ot\<close>: Python compares
  the items with \<^verbatim>\<open>==\<close> to find the first difference.
\<close>

definition content_ne :: "node \<Rightarrow> node \<Rightarrow> bool" where
  "content_ne self other =
     ((payload self \<noteq> payload other \<or> \<not> tuple_eq (args self) (args other))
      \<or> \<not> keys_eq self other)"

definition type_differs :: "node \<Rightarrow> pyval \<Rightarrow> bool" where
  "type_differs self other = (case other of VNode n \<Rightarrow> ntype self \<noteq> ntype n | _ \<Rightarrow> True)"

definition node_ne :: "node \<Rightarrow> pyval \<Rightarrow> bool" where
  "node_ne self other =
     (if type_differs self other then
        (case sympify_strict other of
           None \<Rightarrow> True
         | Some other' \<Rightarrow> if ntype self \<noteq> ntype other' then True else content_ne self other')
      else (case other of VNode n \<Rightarrow> content_ne self n | _ \<Rightarrow> True))"

subsection \<open>Hash\<close>

text \<open>
  \<^verbatim>\<open>Basic.__hash__\<close> builds the tuple \<^verbatim>\<open>(type(self).__name__,) + self._hashable_content()\<close>,
  appends the pairs \<^verbatim>\<open>(k, self._assumptions[k])\<close> for \<^verbatim>\<open>k\<close> in
  \<^verbatim>\<open>sorted(self._assume_type_keys)\<close> when that slot is not \<^verbatim>\<open>None\<close>, and applies Python's
  \<^verbatim>\<open>hash\<close>. The built-in is a parameter of the model: \<open>hr\<close> hashes a string, number or
  flag, and \<open>ht\<close> hashes a tuple from the hashes of its items (a node item is hashed by
  its own \<^verbatim>\<open>__hash__\<close>). The result \<open>None\<close> is the \<^verbatim>\<open>KeyError\<close> of a tag that
  \<^verbatim>\<open>_assumptions\<close> lacks.
\<close>

fun tag_items :: "(raw \<Rightarrow> int) \<Rightarrow> (int list \<Rightarrow> int) \<Rightarrow> (string \<times> bool) list \<Rightarrow> string list
    \<Rightarrow> int list option" where
  "tag_items hr ht kv [] = Some []"
| "tag_items hr ht kv (t # ts) =
     (case map_of kv t of
        None \<Rightarrow> None
      | Some v \<Rightarrow>
          (case tag_items hr ht kv ts of
             None \<Rightarrow> None
           | Some hs \<Rightarrow> Some (ht [hr (RStr t), hr (RBool v)] # hs)))"

fun hash_node :: "(raw \<Rightarrow> int) \<Rightarrow> (int list \<Rightarrow> int) \<Rightarrow> node \<Rightarrow> int option" where
  "hash_node hr ht (Node c p k kv as) =
     (case those (map (hash_node hr ht) as) of
        None \<Rightarrow> None
      | Some hs \<Rightarrow>
          (case k of
             None \<Rightarrow> Some (ht (hr (RStr (cls_name c)) # map hr p @ hs))
           | Some ks \<Rightarrow>
               (case tag_items hr ht kv (sort (remdups ks)) of
                  None \<Rightarrow> None
                | Some ts \<Rightarrow> Some (ht (hr (RStr (cls_name c)) # map hr p @ hs @ ts)))))"

text \<open>One possible built-in hash, to evaluate \<open>hash_node\<close> on concrete nodes.\<close>

fun sample_hash_raw :: "raw \<Rightarrow> int" where
  "sample_hash_raw (RStr s) = int (length s)"
| "sample_hash_raw (RInt i) = i"
| "sample_hash_raw (RBool b) = (if b then 1 else 0)"

definition sample_hash_tuple :: "int list \<Rightarrow> int" where
  "sample_hash_tuple xs = foldl (\<lambda>a x. 31 * a + x) 7 xs"

text \<open>
  \<open>aligned a b\<close>: at every pair of corresponding nodes of \<open>a\<close> and \<open>b\<close> the classes are
  the same (so \<^verbatim>\<open>__eq__\<close> never enters its widening branch) and the tags named by
  \<^verbatim>\<open>_assume_type_keys\<close> have the same values in both \<^verbatim>\<open>_assumptions\<close>.
\<close>

fun aligned :: "node \<Rightarrow> node \<Rightarrow> bool" where
  "aligned (Node c p k kv as) (Node c' p' k' kv' as') =
     (c = c'
      \<and> (case k of None \<Rightarrow> True | Some ks \<Rightarrow> list_all (\<lambda>t. map_of kv t = map_of kv' t) ks)
      \<and> list_all2 aligned as as')"

subsection \<open>Structural sameness\<close>

text \<open>
  Modelled from the spec: \<^verbatim>\<open>preorder_traversal\<close> (from \<^verbatim>\<open>sympy.utilities.iterables\<close>, not
  in this file), the full preorder traversal: a node and then the traversals of its
  arguments, left to right.
\<close>

fun preorder :: "node \<Rightarrow> node list" where
  "preorder (Node c p k kv as) = Node c p k kv as # concat (map preorder as)"

text \<open>
  \<open>compare0 a b\<close> is \<^verbatim>\<open>a.compare(b) == 0\<close>: \<^verbatim>\<open>cmp\<close> of the two classes is 0 for the same
  class only, then the contents have the same length and compare 0 item by item
  (\<^verbatim>\<open>compare\<close> for nodes, \<^verbatim>\<open>cmp\<close> for plain values). Assumptions take no part.
\<close>

fun compare0 :: "node \<Rightarrow> node \<Rightarrow> bool" where
  "compare0 (Node c p k kv as) (Node c' p' k' kv' as') =
     (c = c' \<and> p = p' \<and> list_all2 compare0 as as')"

text \<open>\<^verbatim>\<open>a.assumptions0 == b.assumptions0\<close>: equality of two dictionaries.\<close>

definition dict_eq :: "('a \<times> 'b) list \<Rightarrow> ('a \<times> 'b) list \<Rightarrow> bool" where
  "dict_eq d e = list_all (\<lambda>t. map_of d t = map_of e t) (map fst d @ map fst e)"

definition is_Symbol :: "node \<Rightarrow> bool" where
  "is_Symbol n = issubclass (ntype n) Symbol"

definition is_Dummy :: "node \<Rightarrow> bool" where
  "is_Dummy n = issubclass (ntype n) Dummy"

definition is_Atom :: "node \<Rightarrow> bool" where
  "is_Atom n = issubclass (ntype n) Atom"

text \<open>
  \<^verbatim>\<open>_aresame(a, b)\<close>: two symbols that compare 0 are the same when their assumptions are
  (\<^verbatim>\<open>assumptions0\<close>, declared outside this file, is the dictionary of the assumption tags
  of the node); otherwise the two preorder traversals are zipped (the longer one is cut)
  and every pair has to be \<^verbatim>\<open>==\<close> and of the same type.
\<close>

definition aresame :: "node \<Rightarrow> node \<Rightarrow> bool" where
  "aresame a b =
     (if compare0 a b \<and> is_Symbol a \<and> is_Symbol b then dict_eq (assumptions a) (assumptions b)
      else list_all (\<lambda>(i, j). node_eq i (VNode j) \<and> ntype i = ntype j)
             (zip (preorder a) (preorder b)))"

subsection \<open>Single-pair substitution and exact replacement\<close>

text \<open>
  \<^verbatim>\<open>Basic._subs(old, new)\<close> with the stub \<^verbatim>\<open>Basic._eval_subs\<close>, which returns \<^verbatim>\<open>None\<close>, so
  that \<^verbatim>\<open>fallback\<close> runs (the overrides of the operator classes are not in this file).
  \<open>subs_hit\<close> returns \<open>None\<close> where the source returns the object \<^verbatim>\<open>self\<close> itself and
  \<open>Some r\<close> where it returns another object \<open>r\<close>: \<^verbatim>\<open>fallback\<close> tests
  \<^verbatim>\<open>arg is not args[i]\<close> to set \<^verbatim>\<open>hit\<close>, and rebuilds with \<^verbatim>\<open>self.func(*args)\<close> on a hit.
  \<^verbatim>\<open>self.func\<close> is the class of the node, called as a constructor. The constructors of
  the operator classes are declared outside this file and may evaluate (a product with a
  factor 0 is 0), so the constructor is the parameter \<open>func\<close>, which takes the class and
  the arguments; for the class \<^verbatim>\<open>Basic\<close> it is \<^verbatim>\<open>Basic.__new__\<close>, that is \<open>Op\<close>.
\<close>

fun subs_hit :: "(cls \<Rightarrow> node list \<Rightarrow> node) \<Rightarrow> node \<Rightarrow> node \<Rightarrow> node \<Rightarrow> node option" where
  "subs_hit func (Node c p k kv as) old new =
     (if aresame (Node c p k kv as) old then Some new
      else
        (let rs = map (\<lambda>arg. subs_hit func arg old new) as in
         if list_ex (\<lambda>r. r \<noteq> None) rs
         then Some (func c (map2 (\<lambda>arg r. case r of None \<Rightarrow> arg | Some arg' \<Rightarrow> arg') as rs))
         else None))"

definition subs_pair :: "(cls \<Rightarrow> node list \<Rightarrow> node) \<Rightarrow> node \<Rightarrow> node \<Rightarrow> node \<Rightarrow> node" where
  "subs_pair func self old new =
     (case subs_hit func self old new of None \<Rightarrow> self | Some r \<Rightarrow> r)"

text \<open>
  \<^verbatim>\<open>xreplace(rule)\<close>: \<^verbatim>\<open>Atom.xreplace\<close> is \<^verbatim>\<open>rule.get(self, self)\<close>; \<^verbatim>\<open>Basic.xreplace\<close> returns
  \<^verbatim>\<open>rule[self]\<close> for a key, and otherwise, for a non-empty rule, rewrites the arguments and
  rebuilds with \<^verbatim>\<open>self.func(*args)\<close> when \<^verbatim>\<open>args != self.args\<close>. The dictionary is an
  association list, looked up by the node as a whole.
\<close>

fun xreplace :: "(cls \<Rightarrow> node list \<Rightarrow> node) \<Rightarrow> node \<Rightarrow> (node \<times> node) list \<Rightarrow> node" where
  "xreplace func (Node c p k kv as) rule =
     (case map_of rule (Node c p k kv as) of
        Some v \<Rightarrow> v
      | None \<Rightarrow>
          if issubclass c Atom then Node c p k kv as
          else if rule \<noteq> [] then
            (let args' = map (\<lambda>arg. xreplace func arg rule) as in
             if \<not> tuple_eq args' as then func c args' else Node c p k kv as)
          else Node c p k kv as)"

subsection \<open>subs\<close>

datatype pyerr = ValueError | TypeError

text \<open>
  The positional arguments of \<^verbatim>\<open>subs\<close>: two arguments \<^verbatim>\<open>(old, new)\<close>; one ordered iterable
  of pairs; one \<^verbatim>\<open>dict\<close> or \<^verbatim>\<open>set\<close> (its items in the order in which Python iterates over
  them); one argument that is not iterable; or another number of arguments.
\<close>

datatype subs_args =
    OldNew node node
  | Ordered "(node \<times> node) list"
  | Unordered "(node \<times> node) list"
  | NotIterable
  | WrongArity

text \<open>
  The first loop of \<^verbatim>\<open>subs\<close>: a pair whose two sides are \<^verbatim>\<open>_aresame\<close> becomes \<^verbatim>\<open>None\<close> and is
  filtered out (the sides are nodes already, so \<^verbatim>\<open>sympify\<close> returns them).
\<close>

definition drop_same :: "(node \<times> node) list \<Rightarrow> (node \<times> node) list" where
  "drop_same sequence = filter (\<lambda>(old, new). \<not> aresame old new) sequence"

text \<open>\<^verbatim>\<open>dict(sequence)\<close>: a later pair replaces the value of an earlier one with the same key.\<close>

definition dict_of :: "('k \<times> 'v) list \<Rightarrow> ('k \<times> 'v) list" where
  "dict_of sequence = foldl (\<lambda>d (k, v). AList.update k v d) [] sequence"

text \<open>
  \<^verbatim>\<open>ops = o.count_ops(), len(o.args)\<close>, and \<^verbatim>\<open>(0, 0)\<close> when \<^verbatim>\<open>count_ops\<close> raises \<^verbatim>\<open>TypeError\<close>
  (\<open>None\<close>). \<^verbatim>\<open>count_ops\<close> comes from \<^verbatim>\<open>sympy.core.function\<close> and is a parameter.
\<close>

definition ops_of :: "(node \<Rightarrow> int option) \<Rightarrow> node \<Rightarrow> int \<times> int" where
  "ops_of count_ops old =
     (case count_ops old of None \<Rightarrow> (0, 0) | Some n \<Rightarrow> (n, int (length (args old))))"

text \<open>
  The branch \<^verbatim>\<open>if unordered\<close> of \<^verbatim>\<open>subs\<close>, from the items of \<^verbatim>\<open>dict(sequence)\<close>. With a key
  that is not an atom, the keys are grouped by \<^verbatim>\<open>ops\<close> (the dictionary \<^verbatim>\<open>d\<close>), the groups are
  visited in \<^verbatim>\<open>sorted(d.keys(), reverse=True)\<close>, each group is sorted by
  \<^verbatim>\<open>default_sort_key\<close>, and every key is paired with its value again. Otherwise the items
  are sorted by \<^verbatim>\<open>default_sort_key\<close> of the pair. \<^verbatim>\<open>default_sort_key\<close> comes from
  \<^verbatim>\<open>sympy.utilities\<close>: \<open>key\<close> is its value on a node, \<open>pkey\<close> its value on a pair.
\<close>

definition order_unordered ::
  "(node \<Rightarrow> int option) \<Rightarrow> (node \<Rightarrow> 'a::linorder) \<Rightarrow> (node \<times> node \<Rightarrow> 'b::linorder)
   \<Rightarrow> (node \<times> node) list \<Rightarrow> (node \<times> node) list" where
  "order_unordered count_ops key pkey items =
     (if \<not> list_all (\<lambda>(k, v). is_Atom k) items then
        (let d = (\<lambda>ops. map fst (filter (\<lambda>(old, new). ops_of count_ops old = ops) items));
             newseq = concat (map (\<lambda>ops. sort_key key (d ops))
                         (rev (sort (remdups (map (\<lambda>(old, new). ops_of count_ops old) items)))))
         in map (\<lambda>k. (k, the (map_of items k))) newseq)
      else sort_key pkey items)"

text \<open>
  The loop without \<^verbatim>\<open>simultaneous\<close>: \<^verbatim>\<open>rv = rv._subs(old, new)\<close> for each pair in turn. (The
  \<^verbatim>\<open>break\<close> on a result that is not a node is never taken here: \<open>subs_pair\<close> returns
  nodes.)
\<close>

fun subs_sequential :: "(cls \<Rightarrow> node list \<Rightarrow> node) \<Rightarrow> node \<Rightarrow> (node \<times> node) list \<Rightarrow> node" where
  "subs_sequential func rv [] = rv"
| "subs_sequential func rv ((old, new) # rest) =
     subs_sequential func (subs_pair func rv old new) rest"

text \<open>
  The loop with \<^verbatim>\<open>simultaneous=True\<close>. \<^verbatim>\<open>C.Dummy()\<close> takes the next index of the class
  counter \<^verbatim>\<open>Dummy._count\<close>, which is \<open>cnt\<close>; \<^verbatim>\<open>reps[d] = new\<close> adds the entry to the
  dictionary. The loop returns \<^verbatim>\<open>rv\<close> and \<^verbatim>\<open>reps\<close>; \<^verbatim>\<open>subs\<close> then returns
  \<^verbatim>\<open>rv.xreplace(reps)\<close>.
\<close>

fun simultaneous_loop ::
  "(cls \<Rightarrow> node list \<Rightarrow> node) \<Rightarrow> nat \<Rightarrow> node \<Rightarrow> (node \<times> node) list \<Rightarrow> (node \<times> node) list
   \<Rightarrow> node \<times> (node \<times> node) list" where
  "simultaneous_loop func cnt rv reps [] = (rv, reps)"
| "simultaneous_loop func cnt rv reps ((old, new) # rest) =
     (let d = DummyN cnt;
          rv' = subs_pair func rv old d;
          reps' = AList.update d new reps
      in simultaneous_loop func (Suc cnt) rv' reps' rest)"

definition subs_apply ::
  "(cls \<Rightarrow> node list \<Rightarrow> node) \<Rightarrow> bool \<Rightarrow> nat \<Rightarrow> node \<Rightarrow> (node \<times> node) list \<Rightarrow> node" where
  "subs_apply func simultaneous cnt self sequence =
     (if simultaneous then
        (case simultaneous_loop func cnt self [] sequence of
           (rv, reps) \<Rightarrow> xreplace func rv reps)
      else subs_sequential func self sequence)"

text \<open>\<^verbatim>\<open>Basic.subs(*args, simultaneous=...)\<close>.\<close>

definition subs ::
  "(cls \<Rightarrow> node list \<Rightarrow> node) \<Rightarrow> (node \<Rightarrow> int option) \<Rightarrow> (node \<Rightarrow> 'a::linorder)
   \<Rightarrow> (node \<times> node \<Rightarrow> 'b::linorder)
   \<Rightarrow> nat \<Rightarrow> node \<Rightarrow> subs_args \<Rightarrow> bool \<Rightarrow> pyerr + node" where
  "subs func count_ops key pkey cnt self a simultaneous =
     (case a of
        WrongArity \<Rightarrow> Inl ValueError
      | NotIterable \<Rightarrow> Inl ValueError
      | OldNew old new \<Rightarrow> Inr (subs_apply func simultaneous cnt self (drop_same [(old, new)]))
      | Ordered sequence \<Rightarrow> Inr (subs_apply func simultaneous cnt self (drop_same sequence))
      | Unordered sequence \<Rightarrow>
          Inr (subs_apply func simultaneous cnt self
                 (order_unordered count_ops key pkey (dict_of (drop_same sequence)))))"

text \<open>\<^verbatim>\<open>self.subs(old, new)\<close>, the call with two arguments.\<close>

definition subs_old_new :: "(cls \<Rightarrow> node list \<Rightarrow> node) \<Rightarrow> nat \<Rightarrow> node \<Rightarrow> node \<Rightarrow> node \<Rightarrow> node" where
  "subs_old_new func cnt self old new =
     subs_apply func False cnt self (drop_same [(old, new)])"

subsection \<open>Substitution of all pairs at once\<close>

text \<open>
  \<^verbatim>\<open>Dummy()\<close> gives every new dummy the next value of the class counter as its index, so
  the dummies that exist when the counter is \<open>cnt\<close> have smaller indices, and the ones
  made from then on have the indices \<open>cnt\<close>, \<open>cnt + 1\<close>, and so on. \<open>made_since cnt n\<close>:
  the node \<open>n\<close> is a dummy with an index that the counter had not reached at \<open>cnt\<close>.
  \<open>fresh cnt t\<close>: the tree \<open>t\<close> has no such node, as every tree has that was built
  before the counter reached \<open>cnt\<close>.
\<close>

fun made_since :: "nat \<Rightarrow> node \<Rightarrow> bool" where
  "made_since cnt (Node c p k kv as) =
     (c = Dummy \<and> (case p of [b, s, RInt i] \<Rightarrow> int cnt \<le> i | _ \<Rightarrow> False))"

definition fresh :: "nat \<Rightarrow> node \<Rightarrow> bool" where
  "fresh cnt t = list_all (\<lambda>n. \<not> made_since cnt n) (preorder t)"

text \<open>
  An atom has no arguments (\<^verbatim>\<open>class Atom\<close>: an expression with no subexpressions).
  \<open>atoms_are_leaves t\<close> says so of every node of \<open>t\<close>.
\<close>

definition atoms_are_leaves :: "node \<Rightarrow> bool" where
  "atoms_are_leaves t = list_all (\<lambda>n. \<not> is_Atom n \<or> args n = []) (preorder t)"

text \<open>
  The substitution of all pairs at once, in the words of the specification and not from
  the source. \<open>occurs old t\<close>: some node of \<open>t\<close> is the same as \<open>old\<close>. In
  \<open>parallel_subs pairs t\<close> every node is decided by the first pair whose old side occurs
  in it: the node is that old side and becomes the new side of the pair, as it is; or
  the old side occurs further down, and the node is built again (by the constructor that
  keeps the arguments as they are) from its arguments, each one treated in the same way.
  A node in which no old side occurs stays. A new side is put in and never looked into,
  so no pair is applied to the new side of another.
\<close>

definition occurs :: "node \<Rightarrow> node \<Rightarrow> bool" where
  "occurs old t = list_ex (\<lambda>n. aresame n old) (preorder t)"

fun parallel_subs :: "(node \<times> node) list \<Rightarrow> node \<Rightarrow> node" where
  "parallel_subs pairs (Node c p k kv as) =
     (case find (\<lambda>(old, new). occurs old (Node c p k kv as)) pairs of
        None \<Rightarrow> Node c p k kv as
      | Some (old, new) \<Rightarrow>
          if aresame (Node c p k kv as) old then new
          else Op c (map (parallel_subs pairs) as))"

text \<open>
  \<open>has_placeholder cnt t\<close>: the tree \<open>t\<close> holds one of the dummies that \<^verbatim>\<open>subs\<close> makes from
  the counter value \<open>cnt\<close> on, that is \<open>DummyN j\<close> for an index \<open>j\<close> from \<open>cnt\<close> on.
\<close>

definition has_placeholder :: "nat \<Rightarrow> node \<Rightarrow> bool" where
  "has_placeholder cnt t =
     list_ex (\<lambda>n. case payload n of
                     [b, s, RInt i] \<Rightarrow> int cnt \<le> i \<and> n = DummyN (nat i)
                   | _ \<Rightarrow> False) (preorder t)"

text \<open>
  A sample of constructors that evaluate, after the docstring of \<^verbatim>\<open>subs\<close>, to run the
  model on \<open>x/y\<close>: \<open>0**(-1)\<close> is \<^verbatim>\<open>zoo\<close> (complex infinity), \<open>0*zoo\<close> and \<open>0*nan\<close> are \<^verbatim>\<open>nan\<close>, any
  other product of two factors with the first factor 0 is 0, and everything else is
  built as it is. \<^verbatim>\<open>zoo\<close> and \<^verbatim>\<open>nan\<close> are atoms.
\<close>

definition zoo :: node where
  "zoo = Node Atom [RStr ''zoo''] None [] []"

definition nan :: node where
  "nan = Node Atom [RStr ''nan''] None [] []"

definition sample_func :: "cls \<Rightarrow> node list \<Rightarrow> node" where
  "sample_func c xs =
     (if c = PowC \<and> xs = [IntN 0, IntN (- 1)] then zoo
      else if c = Mul \<and> length xs = 2 \<and> xs ! 0 = IntN 0
      then (if xs ! 1 = zoo \<or> xs ! 1 = nan then nan else IntN 0)
      else Op c xs)"

subsection \<open>dummy_eq\<close>

text \<open>
  \<^verbatim>\<open>free_symbols\<close>: the union of the free symbols of the arguments (\<^verbatim>\<open>Basic.free_symbols\<close>);
  a symbol is its own only free symbol (the custom free-variable set of \<^verbatim>\<open>Symbol\<close>, which
  is declared outside this file). The set is a list without repetitions.
\<close>

fun free_symbols :: "node \<Rightarrow> node list" where
  "free_symbols (Node c p k kv as) =
     (if issubclass c Symbol then [Node c p k kv as]
      else remdups (concat (map free_symbols as)))"

text \<open>
  \<^verbatim>\<open>dummy_eq(self, other, symbol=None)\<close>; \<open>cnt\<close> is the class counter that gives
  \<^verbatim>\<open>dummy.__class__()\<close> its index.
\<close>

definition dummy_eq ::
  "(cls \<Rightarrow> node list \<Rightarrow> node) \<Rightarrow> nat \<Rightarrow> node \<Rightarrow> node \<Rightarrow> node option \<Rightarrow> pyerr + bool" where
  "dummy_eq func cnt self other symbol =
     (case filter is_Dummy (free_symbols self) of
        [] \<Rightarrow> Inr (node_eq self (VNode other))
      | [dummy] \<Rightarrow>
          (let tmp = DummyN cnt;
               compare_with = (\<lambda>symbol'.
                 Inr (node_eq (subs_old_new func (Suc cnt) self dummy tmp)
                        (VNode (subs_old_new func (Suc cnt) other symbol' tmp))))
           in case symbol of
                Some symbol' \<Rightarrow> compare_with symbol'
              | None \<Rightarrow>
                  (case free_symbols other of
                     [] \<Rightarrow> Inr (node_eq self (VNode other))
                   | [symbol'] \<Rightarrow> compare_with symbol'
                   | _ # _ # _ \<Rightarrow> Inl ValueError))
      | _ # _ # _ \<Rightarrow> Inl ValueError)"

subsection \<open>atoms\<close>

text \<open>
  A selector given to \<^verbatim>\<open>atoms\<close>: a class, or an instance that stands for its class
  (\<^verbatim>\<open>type(t)\<close>, the branch taken after \<^verbatim>\<open>TypeError\<close>).
\<close>

datatype kind = KType cls | KInst node

fun kind_cls :: "kind \<Rightarrow> cls" where
  "kind_cls (KType c) = c"
| "kind_cls (KInst n) = ntype n"

definition isinstance_any :: "node \<Rightarrow> kind list \<Rightarrow> bool" where
  "isinstance_any expr typ = list_ex (\<lambda>t. issubclass (ntype expr) (kind_cls t)) typ"

text \<open>
  The helper \<^verbatim>\<open>_atoms(expr, typ)\<close> of \<^verbatim>\<open>atoms\<close>, on nodes: an atom with no selector given is
  returned alone; otherwise the node is added when it is an instance of a selector, and
  the results of all of \<^verbatim>\<open>expr.iter_basic_args()\<close> are added.
\<close>

fun atoms_rec :: "node \<Rightarrow> kind list \<Rightarrow> node set" where
  "atoms_rec (Node c p k kv as) typ =
     (if issubclass c Atom \<and> length typ = 0 then {Node c p k kv as}
      else (if isinstance_any (Node c p k kv as) typ then {Node c p k kv as} else {})
           \<union> \<Union> (set (map (\<lambda>obj. atoms_rec obj typ) as)))"

definition atoms :: "node \<Rightarrow> kind list \<Rightarrow> node set" where
  "atoms self types = atoms_rec self types"

subsection \<open>has\<close>

text \<open>
  Modelled from the spec: \<^verbatim>\<open>is_commutative\<close>, a property that the assumption provider
  (module \<^verbatim>\<open>assumptions\<close>, not in this file) gives every node. It reads the tag
  \<^verbatim>\<open>commutative\<close> of the node in \<^verbatim>\<open>_assumptions\<close>; an absent tag is \<^verbatim>\<open>None\<close>, which is false
  in a condition.
\<close>

definition is_commutative :: "node \<Rightarrow> bool" where
  "is_commutative n = (map_of (assumptions n) ''commutative'' = Some True)"

definition is_Add :: "node \<Rightarrow> bool" where
  "is_Add n = issubclass (ntype n) Add"

definition is_Mul :: "node \<Rightarrow> bool" where
  "is_Mul n = issubclass (ntype n) Mul"

text \<open>\<^verbatim>\<open>_ncsplit(expr)\<close>: the commutative part (made a set by the caller) and the rest.\<close>

definition ncsplit :: "node \<Rightarrow> node list \<times> node list" where
  "ncsplit expr =
     (if is_Add expr \<or> is_Mul expr then
        (filter is_commutative (args expr), filter (\<lambda>arg. \<not> is_commutative arg) (args expr))
      else if is_commutative expr then ([expr], [])
      else ([], [expr]))"

text \<open>
  The loop \<^verbatim>\<open>for i in xrange(len(_nc) - len(nc))\<close> of \<^verbatim>\<open>_contains\<close>, as the list of the
  indices it visits; \<^verbatim>\<open>_nc[i:i+len(nc)] == nc\<close> compares two lists item by item with
  \<^verbatim>\<open>==\<close>.
\<close>

definition nc_run_found :: "node list \<Rightarrow> node list \<Rightarrow> bool" where
  "nc_run_found nc nc' =
     list_ex (\<lambda>i. tuple_eq (take (length nc) (drop i nc')) nc) [0 ..< length nc' - length nc]"

definition contains :: "node \<Rightarrow> node \<Rightarrow> bool \<Rightarrow> node list \<Rightarrow> node list \<Rightarrow> bool" where
  "contains expr subexpr iterative c nc =
     (if node_eq expr (VNode subexpr) then True
      else if iterative \<and> (is_Add expr \<or> is_Mul expr) then
        (case ncsplit expr of (c', nc') \<Rightarrow>
           if set c \<inter> set c' = set c then
             (if nc = [] then True
              else if length nc \<le> length nc' then nc_run_found nc nc'
              else False)
           else False)
      else False)"

text \<open>A pattern given to \<^verbatim>\<open>has\<close>: a class (an instance of \<^verbatim>\<open>BasicType\<close>) or a node.\<close>

datatype pattern = PType cls | PNode node

text \<open>\<^verbatim>\<open>_match(pattern)\<close> applied to \<^verbatim>\<open>expr\<close>.\<close>

fun match_pattern :: "pattern \<Rightarrow> node \<Rightarrow> bool" where
  "match_pattern (PType c) expr = issubclass (ntype expr) c"
| "match_pattern (PNode pat) expr =
     (if is_Add pat \<or> is_Mul pat
      then (case ncsplit pat of (c, nc) \<Rightarrow> contains expr pat True c nc)
      else contains expr pat False [] [])"

text \<open>\<^verbatim>\<open>_search(expr, match)\<close>.\<close>

fun search :: "node \<Rightarrow> (node \<Rightarrow> bool) \<Rightarrow> bool" where
  "search (Node c p k kv as) match =
     (if match (Node c p k kv as) then True
      else list_ex (\<lambda>arg. search arg match) as)"

definition has :: "node \<Rightarrow> pattern list \<Rightarrow> bool" where
  "has self patterns = list_ex (\<lambda>pattern. search self (match_pattern pattern)) patterns"

subsection \<open>replace\<close>

text \<open>
  \<^verbatim>\<open>rec_replace\<close> inside \<^verbatim>\<open>replace\<close>. \<open>query\<close> is \<^verbatim>\<open>_query\<close> (\<open>None\<close> for a result that is
  false in a condition), \<open>val\<close> is \<^verbatim>\<open>_value\<close>, \<open>mp\<close> is the flag \<^verbatim>\<open>map\<close>, and the dictionary
  \<^verbatim>\<open>mapping\<close> is passed through the calls. \<open>rec_replace_args\<close> is the loop over
  \<^verbatim>\<open>expr.args\<close>: it returns the list \<^verbatim>\<open>args\<close>, the flag \<^verbatim>\<open>construct\<close> and the dictionary.
  \<^verbatim>\<open>expr.__class__(*args)\<close> is the constructor \<open>func\<close>.
\<close>

fun rec_replace ::
    "(cls \<Rightarrow> node list \<Rightarrow> node) \<Rightarrow> (node \<Rightarrow> 'r option) \<Rightarrow> (node \<Rightarrow> 'r \<Rightarrow> node) \<Rightarrow> bool
     \<Rightarrow> node \<Rightarrow> (node \<times> node) list \<Rightarrow> node option \<times> (node \<times> node) list"
  and rec_replace_args ::
    "(cls \<Rightarrow> node list \<Rightarrow> node) \<Rightarrow> (node \<Rightarrow> 'r option) \<Rightarrow> (node \<Rightarrow> 'r \<Rightarrow> node) \<Rightarrow> bool
     \<Rightarrow> node list \<Rightarrow> (node \<times> node) list \<Rightarrow> node list \<times> bool \<times> (node \<times> node) list"
where
  "rec_replace func query val mp (Node c p k kv as) mapping =
     (case rec_replace_args func query val mp as mapping of
        (args', construct, mapping') \<Rightarrow>
          if construct then (Some (func c args'), mapping')
          else
            (case query (Node c p k kv as) of
               Some result \<Rightarrow>
                 (let v = val (Node c p k kv as) result
                  in (Some v,
                      if mp then AList.update (Node c p k kv as) v mapping' else mapping'))
             | None \<Rightarrow> (None, mapping')))"
| "rec_replace_args func query val mp [] mapping = ([], False, mapping)"
| "rec_replace_args func query val mp (arg # rest) mapping =
     (case rec_replace func query val mp arg mapping of
        (result, mapping1) \<Rightarrow>
          (case rec_replace_args func query val mp rest mapping1 of
             (args', construct, mapping2) \<Rightarrow>
               ((case result of None \<Rightarrow> arg | Some r \<Rightarrow> r) # args',
                result \<noteq> None \<or> construct, mapping2)))"

text \<open>
  \<^verbatim>\<open>replace\<close> once \<^verbatim>\<open>_query\<close> and \<^verbatim>\<open>_value\<close> are chosen: \<^verbatim>\<open>mapping = {}\<close>, the call
  \<^verbatim>\<open>rec_replace(self)\<close>, \<^verbatim>\<open>self\<close> for the result \<^verbatim>\<open>None\<close>, and the return of the result
  alone when \<^verbatim>\<open>map\<close> is false (\<open>None\<close> in the second place) and of the result with
  \<^verbatim>\<open>mapping\<close> otherwise.
\<close>

definition replace :: "(cls \<Rightarrow> node list \<Rightarrow> node) \<Rightarrow> (node \<Rightarrow> 'r option) \<Rightarrow> (node \<Rightarrow> 'r \<Rightarrow> node)
    \<Rightarrow> bool \<Rightarrow> node \<Rightarrow> node \<times> (node \<times> node) list option" where
  "replace func query val mp self =
     (case rec_replace func query val mp self [] of
        (result, mapping) \<Rightarrow>
          (let result' = (case result of None \<Rightarrow> self | Some r \<Rightarrow> r)
           in if \<not> mp then (result', None) else (result', Some mapping)))"

subsection \<open>Pattern matching\<close>

text \<open>
  A binding map is a Python \<^verbatim>\<open>dict\<close>, an object that can be shared and mutated. The store
  holds the dictionaries that exist; an address is an index into it.
  \<^verbatim>\<open>repl_dict.copy()\<close> allocates a new dictionary at the end of the store.
\<close>

type_synonym dict = "(node \<times> node) list"
type_synonym store = "dict list"

definition dict_copy :: "store \<Rightarrow> nat \<Rightarrow> store \<times> nat" where
  "dict_copy h r = (h @ [h ! r], length h)"

definition is_Wild :: "node \<Rightarrow> bool" where
  "is_Wild n = issubclass (ntype n) Wild"

text \<open>
  Modelled from the spec: \<^verbatim>\<open>Wild.matches\<close> (class \<^verbatim>\<open>Wild\<close> of \<^verbatim>\<open>sympy/core/symbol.py\<close>, not
  in this file). A wildcard matches any node and records the match under itself; a
  wildcard that is bound already has to be bound to an equal node. The binding is added
  to a copy of the map.
\<close>

definition Wild_matches :: "store \<Rightarrow> node \<Rightarrow> node \<Rightarrow> nat \<Rightarrow> store \<times> nat option" where
  "Wild_matches h self expr repl_dict =
     (case map_of (h ! repl_dict) self of
        Some bound \<Rightarrow> (h, if node_eq bound (VNode expr) then Some repl_dict else None)
      | None \<Rightarrow>
          (case dict_copy h repl_dict of
             (h', d) \<Rightarrow> (h'[d := AList.update self expr (h' ! d)], Some d)))"

text \<open>
  \<^verbatim>\<open>matches(self, expr, repl_dict)\<close> by the class of \<^verbatim>\<open>self\<close>: \<^verbatim>\<open>Wild.matches\<close>, \<^verbatim>\<open>Atom.matches\<close>
  (which returns \<^verbatim>\<open>repl_dict\<close> when \<^verbatim>\<open>self == expr\<close> and \<^verbatim>\<open>None\<close> otherwise), or
  \<^verbatim>\<open>Basic.matches\<close>. \<open>matches_args\<close> is the loop of \<^verbatim>\<open>Basic.matches\<close> over
  \<^verbatim>\<open>zip(self.args, expr.args)\<close>, with the address \<^verbatim>\<open>d\<close>. The result is the new store and
  the address of the returned map, or \<open>None\<close> for \<^verbatim>\<open>None\<close>.
\<close>

fun matches :: "(cls \<Rightarrow> node list \<Rightarrow> node) \<Rightarrow> store \<Rightarrow> node \<Rightarrow> node \<Rightarrow> nat \<Rightarrow> store \<times> nat option"
  and matches_args ::
    "(cls \<Rightarrow> node list \<Rightarrow> node) \<Rightarrow> store \<Rightarrow> node list \<Rightarrow> node list \<Rightarrow> nat \<Rightarrow> store \<times> nat option"
where
  "matches func h self (Node c p k kv as) repl_dict =
     (if is_Wild self then Wild_matches h self (Node c p k kv as) repl_dict
      else if is_Atom self then
        (h, if node_eq self (VNode (Node c p k kv as)) then Some repl_dict else None)
      else if \<not> issubclass c (ntype self) then (h, None)
      else if node_eq self (VNode (Node c p k kv as)) then (h, Some repl_dict)
      else if length (args self) \<noteq> length as then (h, None)
      else (case dict_copy h repl_dict of (h', d) \<Rightarrow> matches_args func h' (args self) as d))"
| "matches_args func h (arg # rest) (other_arg # other_rest) d =
     (if node_eq arg (VNode other_arg) then matches_args func h rest other_rest d
      else
        (case matches func h (xreplace func arg (h ! d)) other_arg d of
           (h', None) \<Rightarrow> (h', None)
         | (h', Some d') \<Rightarrow> matches_args func h' rest other_rest d'))"
| "matches_args func h [] other_rest d = (h, Some d)"
| "matches_args func h (arg # rest) [] d = (h, Some d)"

text \<open>
  \<^verbatim>\<open>match(self, pattern)\<close> calls \<^verbatim>\<open>pattern.matches(self)\<close> with the default argument of
  \<^verbatim>\<open>matches\<close>, the empty dictionary, here at address 0 of a store that holds nothing else.
  The result is the binding map as a value.
\<close>

definition match_node :: "(cls \<Rightarrow> node list \<Rightarrow> node) \<Rightarrow> node \<Rightarrow> node \<Rightarrow> dict option" where
  "match_node func self pattern =
     (case matches func [Nil] pattern self 0 of
        (h, None) \<Rightarrow> None
      | (h, Some d) \<Rightarrow> Some (h ! d))"

text \<open>
  \<open>grows h r h' res\<close>: the store \<open>h'\<close> is \<open>h\<close> with new dictionaries added at the end, and a
  returned address is \<open>r\<close> or a new one, whose dictionary has every binding of the
  dictionary at \<open>r\<close>.
\<close>

definition grows :: "store \<Rightarrow> nat \<Rightarrow> store \<Rightarrow> nat option \<Rightarrow> bool" where
  "grows h r h' res =
     ((\<exists>ext. h' = h @ ext)
      \<and> (\<forall>d. res = Some d \<longrightarrow>
            d < length h' \<and> (d = r \<or> length h \<le> d) \<and> map_of (h ! r) \<subseteq>\<^sub>m map_of (h' ! d)))"

section \<open>Properties\<close>

subsection \<open>Equality, inequality and hash\<close>

lemma tuple_eq_aligned_hash:
  assumes "\<And>x b. x \<in> set as \<Longrightarrow> aligned x b \<Longrightarrow> node_eq x (VNode b)
             \<Longrightarrow> hash_node hr ht x = hash_node hr ht b"
    and "list_all2 aligned as bs" and "tuple_eq as bs"
  shows "map (hash_node hr ht) as = map (hash_node hr ht) bs"
  using assms(2,3,1)
  by (induction as bs rule: list_all2_induct) auto

lemma tag_items_cong:
  "\<forall>t \<in> set ts. map_of kv t = map_of kv' t \<Longrightarrow> tag_items hr ht kv ts = tag_items hr ht kv' ts"
  by (induction ts) (auto split: option.splits)

lemma sort_remdups_set:
  "set ks = set ks' \<Longrightarrow> sort (remdups ks) = sort (remdups (ks' :: string list))"
  by (metis sorted_list_of_set_sort_remdups)

text \<open>\<^verbatim>\<open>==\<close> is reflexive on nodes and on tuples of nodes.\<close>

lemma node_eq_refl: "node_eq a (VNode a)"
proof (induction a)
  case (Node c p k kv as)
  have "tuple_eq as as" using Node.IH by (induction as) simp_all
  then show ?case by (simp add: keys_eq_def)
qed

lemma tuple_eq_refl: "tuple_eq xs xs"
  by (induction xs) (simp_all add: node_eq_refl del: node_eq.simps)

text \<open>
  C1 (the code differs). At \<open>a = x ** 1\<close> (the power, not evaluated) and \<open>b = x\<close>,
  \<^verbatim>\<open>a == b\<close> is true and the hashes differ. \<^verbatim>\<open>__eq__\<close> strips a power with exponent 1
  before it compares the types, against its own docstring, by which \<^verbatim>\<open>a == b\<close> is
  \<^verbatim>\<open>a.compare(b) == 0\<close>; \<^verbatim>\<open>__hash__\<close> does not strip, and the tuple that it hashes starts with
  \<^verbatim>\<open>'Pow'\<close> for the one and with \<^verbatim>\<open>'Symbol'\<close> for the other. The sample built-in hash tells
  the two tuples apart.
\<close>

theorem hash_differs_for_equal_unit_power:
  "node_eq (Op PowC [Sym ''x'', IntN 1]) (VNode (Sym ''x''))
   \<and> hash_node sample_hash_raw sample_hash_tuple (Op PowC [Sym ''x'', IntN 1])
       \<noteq> hash_node sample_hash_raw sample_hash_tuple (Sym ''x'')"
  by (simp add: Op_def Sym_def IntN_def keys_eq_def sample_hash_tuple_def)

text \<open>
  A second way in which equal nodes get different hashes: the values of the tags take no
  part in \<^verbatim>\<open>==\<close>, which compares \<^verbatim>\<open>_assume_type_keys\<close> only, but they are hashed. Two
  symbols \<open>x\<close> with the same instance tag \<open>positive\<close>, true for the one and false for
  the other, are equal and have different hashes.
\<close>

lemma tag_values_matter:
  "node_eq (Node Symbol [RBool True, RStr ''x''] (Some [''positive'']) [(''positive'', True)] [])
     (VNode (Node Symbol [RBool True, RStr ''x''] (Some [''positive'']) [(''positive'', False)] []))
   \<and> hash_node sample_hash_raw sample_hash_tuple
        (Node Symbol [RBool True, RStr ''x''] (Some [''positive'']) [(''positive'', True)] [])
     \<noteq> hash_node sample_hash_raw sample_hash_tuple
        (Node Symbol [RBool True, RStr ''x''] (Some [''positive'']) [(''positive'', False)] [])"
  by (simp add: keys_eq_def sample_hash_tuple_def)

text \<open>
  Apart from these two ways, \<^verbatim>\<open>a == b\<close> implies \<^verbatim>\<open>hash(a) == hash(b)\<close>: it does for two
  nodes that are aligned, that is, with the same class at every pair of corresponding
  nodes, so that \<^verbatim>\<open>__eq__\<close> strips nothing, and with the same values for the tags of
  \<^verbatim>\<open>_assume_type_keys\<close>. This holds for every built-in hash \<open>hr\<close>, \<open>ht\<close>.
\<close>

lemma hash_consistent_when_aligned:
  "aligned a b \<Longrightarrow> node_eq a (VNode b) \<Longrightarrow> hash_node hr ht a = hash_node hr ht b"
proof (induction a arbitrary: b)
  case (Node c p k kv as)
  obtain c' p' k' kv' as' where b: "b = Node c' p' k' kv' as'" by (cases b)
  from Node.prems b have cc: "c = c'" and al: "list_all2 aligned as as'"
    and tags: "case k of None \<Rightarrow> True | Some ks \<Rightarrow> list_all (\<lambda>t. map_of kv t = map_of kv' t) ks"
    by simp_all
  from Node.prems(2) b cc have pp: "p = p'" and te: "tuple_eq as as'"
    and ke: "map_option set k = map_option set k'"
    by (simp_all add: keys_eq_def)
  have hs: "map (hash_node hr ht) as = map (hash_node hr ht) as'"
    using Node.IH al te by (rule tuple_eq_aligned_hash)
  show ?case
  proof (cases k)
    case None
    with ke have "k' = None" by simp
    with None hs cc pp b show ?thesis by (simp split: option.splits)
  next
    case (Some ks)
    with ke obtain ks' where k': "k' = Some ks'" and ss: "set ks = set ks'"
      by (cases k') auto
    have srt: "sort (remdups ks) = sort (remdups ks')" using ss by (rule sort_remdups_set)
    have "\<forall>t \<in> set (sort (remdups ks)). map_of kv t = map_of kv' t"
      using tags Some by (simp add: list_all_iff)
    then have "tag_items hr ht kv (sort (remdups ks)) = tag_items hr ht kv' (sort (remdups ks))"
      by (rule tag_items_cong)
    with Some k' srt hs cc pp b show ?thesis by (simp split: option.splits)
  qed
qed

text \<open>
  An instance: two symbols \<open>x\<close> with the instance tag \<open>positive\<close>, whose tag sets
  and dictionaries are written in different orders.
\<close>

lemma hash_consistent_when_aligned_example:
  "aligned (Node Symbol [RBool True, RStr ''x''] (Some [''positive''])
              [(''positive'', True), (''commutative'', True)] [])
           (Node Symbol [RBool True, RStr ''x''] (Some [''positive'', ''positive''])
              [(''commutative'', True), (''positive'', True)] [])
   \<and> node_eq (Node Symbol [RBool True, RStr ''x''] (Some [''positive''])
              [(''positive'', True), (''commutative'', True)] [])
        (VNode (Node Symbol [RBool True, RStr ''x''] (Some [''positive'', ''positive''])
              [(''commutative'', True), (''positive'', True)] []))
   \<and> hash_node sample_hash_raw sample_hash_tuple
        (Node Symbol [RBool True, RStr ''x''] (Some [''positive''])
              [(''positive'', True), (''commutative'', True)] [])
     = hash_node sample_hash_raw sample_hash_tuple
        (Node Symbol [RBool True, RStr ''x''] (Some [''positive'', ''positive''])
              [(''commutative'', True), (''positive'', True)] [])"
proof -
  have al: "aligned (Node Symbol [RBool True, RStr ''x''] (Some [''positive''])
              [(''positive'', True), (''commutative'', True)] [])
           (Node Symbol [RBool True, RStr ''x''] (Some [''positive'', ''positive''])
              [(''commutative'', True), (''positive'', True)] [])"
    by simp
  have eq: "node_eq (Node Symbol [RBool True, RStr ''x''] (Some [''positive''])
              [(''positive'', True), (''commutative'', True)] [])
        (VNode (Node Symbol [RBool True, RStr ''x''] (Some [''positive'', ''positive''])
              [(''commutative'', True), (''positive'', True)] []))"
    by (simp add: keys_eq_def)
  from al eq hash_consistent_when_aligned [OF al eq] show ?thesis by blast
qed

text \<open>For two nodes of the same class, \<^verbatim>\<open>!=\<close> is the negation of \<^verbatim>\<open>==\<close>.\<close>

lemma ne_is_not_eq_same_class:
  "ntype a = ntype b \<Longrightarrow> node_ne a (VNode b) = (\<not> node_eq a (VNode b))"
  by (auto simp: node_ne_def type_differs_def content_ne_def)

text \<open>
  C9 (the code differs). At \<open>a = x ** 1\<close> and \<open>b = x\<close> both \<^verbatim>\<open>a == b\<close> and \<^verbatim>\<open>a != b\<close>
  are true: \<^verbatim>\<open>__eq__\<close> strips the power with exponent 1 before it compares the types,
  \<^verbatim>\<open>__ne__\<close> does not, so \<^verbatim>\<open>!=\<close> is not the negation of \<^verbatim>\<open>==\<close> there.
\<close>

theorem ne_and_eq_both_true_at_unit_power:
  "node_eq (Op PowC [Sym ''x'', IntN 1]) (VNode (Sym ''x''))
   \<and> node_ne (Op PowC [Sym ''x'', IntN 1]) (VNode (Sym ''x''))"
  by (simp add: Op_def Sym_def IntN_def keys_eq_def node_ne_def type_differs_def)

subsection \<open>atoms\<close>

lemma atoms_rec_preorder:
  "typ \<noteq> [] \<Longrightarrow> atoms_rec n typ = {m \<in> set (preorder n). isinstance_any m typ}"
  by (induction n) auto

text \<open>
  C4 (as the code has it). With at least one selector, \<^verbatim>\<open>atoms\<close> returns every node of the
  tree, leaf or not, that is an instance of one of the selectors: \<^verbatim>\<open>_atoms\<close> goes into the
  arguments of every node, whether the node matched or not.
\<close>

theorem atoms_collects_every_matching_subnode:
  "types \<noteq> [] \<Longrightarrow> atoms self types = {n \<in> set (preorder self). isinstance_any n types}"
  by (simp add: atoms_def atoms_rec_preorder)

text \<open>Witness for C4: \<open>2*sin(y + I*pi)\<close> and the selector \<^verbatim>\<open>Mul\<close>.\<close>

theorem atoms_collects_every_matching_subnode_witness:
  "[KType Mul] \<noteq> [] \<and>
   atoms (Op Mul [IntN 2, Op (Function ''sin'')
            [Op Add [Sym ''y'', Op Mul [Sym ''I'', Sym ''pi'']]]]) [KType Mul]
   = {n \<in> set (preorder (Op Mul [IntN 2, Op (Function ''sin'')
                 [Op Add [Sym ''y'', Op Mul [Sym ''I'', Sym ''pi'']]]])).
        isinstance_any n [KType Mul]}"
  using atoms_collects_every_matching_subnode [of "[KType Mul]"
      "Op Mul [IntN 2, Op (Function ''sin'') [Op Add [Sym ''y'', Op Mul [Sym ''I'', Sym ''pi'']]]]"]
  by simp

text \<open>
  Counterexample to C4 as stated, the example of the docstring of \<^verbatim>\<open>atoms\<close>:
  \<open>2*sin(y + I*pi)\<close> is a \<^verbatim>\<open>Mul\<close> and is collected by \<^verbatim>\<open>atoms(Mul)\<close>, and so is its
  descendant \<open>I*pi\<close>.
\<close>

theorem atoms_collects_below_a_match:
  "isinstance_any (Op Mul [IntN 2, Op (Function ''sin'')
        [Op Add [Sym ''y'', Op Mul [Sym ''I'', Sym ''pi'']]]]) [KType Mul]
   \<and> Op Mul [IntN 2, Op (Function ''sin'') [Op Add [Sym ''y'', Op Mul [Sym ''I'', Sym ''pi'']]]]
       \<in> atoms (Op Mul [IntN 2, Op (Function ''sin'')
                 [Op Add [Sym ''y'', Op Mul [Sym ''I'', Sym ''pi'']]]]) [KType Mul]
   \<and> Op Mul [Sym ''I'', Sym ''pi'']
       \<in> atoms (Op Mul [IntN 2, Op (Function ''sin'')
                 [Op Add [Sym ''y'', Op Mul [Sym ''I'', Sym ''pi'']]]]) [KType Mul]
   \<and> Op Mul [Sym ''I'', Sym ''pi'']
       \<noteq> Op Mul [IntN 2, Op (Function ''sin'') [Op Add [Sym ''y'', Op Mul [Sym ''I'', Sym ''pi'']]]]"
  by (simp add: atoms_def Op_def isinstance_any_def Sym_def IntN_def)

subsection \<open>has\<close>

lemma search_root: "match n \<Longrightarrow> search n match"
  by (cases n) simp

text \<open>
  A run of the candidate's non-commutative part that does not end at the last position is
  found: \<^verbatim>\<open>has\<close> is true when the commutative part of the pattern is a subset and its
  non-commutative part is the run at an index \<open>i\<close> that the loop of \<^verbatim>\<open>_contains\<close> visits.
\<close>

lemma has_finds_inner_run:
  assumes "is_Add pat \<or> is_Mul pat" and "is_Add expr \<or> is_Mul expr"
    and "set (fst (ncsplit pat)) \<subseteq> set (fst (ncsplit expr))"
    and "i + length (snd (ncsplit pat)) < length (snd (ncsplit expr))"
    and "take (length (snd (ncsplit pat))) (drop i (snd (ncsplit expr))) = snd (ncsplit pat)"
  shows "has expr [PNode pat]"
proof -
  obtain c nc where p: "ncsplit pat = (c, nc)" by force
  obtain c' nc' where e: "ncsplit expr = (c', nc')" by force
  from assms(3) p e have sub: "set c \<inter> set c' = set c" by auto
  from assms(4) p e have i: "i < length nc' - length nc" by simp
  from assms(5) p e have "tuple_eq (take (length nc) (drop i nc')) nc"
    by (simp add: tuple_eq_refl)
  with i have "nc_run_found nc nc'"
    by (auto simp: nc_run_found_def list_ex_iff)
  moreover from i have "length nc \<le> length nc'" by simp
  ultimately have "contains expr pat True c nc"
    using sub assms(2) e by (simp add: contains_def del: node_eq.simps)
  with assms(1) p have "match_pattern (PNode pat) expr" by simp
  then have "search expr (match_pattern (PNode pat))" by (rule search_root)
  then show ?thesis by (simp add: has_def)
qed

text \<open>
  C5 (the code differs). The pattern \<open>B*C\<close> and the candidate \<open>A*B*C\<close> are products of
  non-commutative symbols: the commutative part of the pattern is empty, its
  non-commutative part \<open>[B, C]\<close> is the run of \<open>[A, B, C]\<close> that starts at index 1 and
  ends at the last position, and \<^verbatim>\<open>has\<close> returns \<^verbatim>\<open>False\<close>. The loop of \<^verbatim>\<open>_contains\<close> runs
  over \<^verbatim>\<open>xrange(len(_nc) - len(nc))\<close>, which stops one index short of the last run.
\<close>

theorem has_misses_run_at_last_position:
  "is_Mul (Op Mul [NCSym ''B'', NCSym ''C''])
   \<and> is_Mul (Op Mul [NCSym ''A'', NCSym ''B'', NCSym ''C''])
   \<and> set (fst (ncsplit (Op Mul [NCSym ''B'', NCSym ''C''])))
        \<subseteq> set (fst (ncsplit (Op Mul [NCSym ''A'', NCSym ''B'', NCSym ''C''])))
   \<and> snd (ncsplit (Op Mul [NCSym ''B'', NCSym ''C'']))
        = drop 1 (snd (ncsplit (Op Mul [NCSym ''A'', NCSym ''B'', NCSym ''C''])))
   \<and> \<not> has (Op Mul [NCSym ''A'', NCSym ''B'', NCSym ''C''])
            [PNode (Op Mul [NCSym ''B'', NCSym ''C''])]"
  by (simp add: has_def Op_def NCSym_def is_Mul_def is_Add_def ncsplit_def is_commutative_def
      contains_def nc_run_found_def keys_eq_def)

subsection \<open>replace\<close>

lemma rec_replace_mapping_indep:
  "fst (rec_replace f q v mp n m) = fst (rec_replace f q v mp n m')"
  "fst (rec_replace_args f q v mp as m) = fst (rec_replace_args f q v mp as m')
   \<and> fst (snd (rec_replace_args f q v mp as m)) = fst (snd (rec_replace_args f q v mp as m'))"
proof (induction f q v mp n m and f q v mp as m arbitrary: m' and m'
       rule: rec_replace_rec_replace_args.induct)
  case (1 func query val mp c p k kv as mapping)
  from "1.IH" [of m'] show ?case
    by (auto simp: Let_def split: prod.splits option.splits)
next
  case (2 func query val mp mapping)
  show ?case by simp
next
  case (3 func query val mp arg rest mapping)
  obtain r1 m1 where a: "rec_replace func query val mp arg mapping = (r1, m1)" by force
  obtain r2 m2 where b: "rec_replace func query val mp arg m' = (r2, m2)" by force
  from "3.IH"(1) [of m'] a b have r: "r1 = r2" by simp
  from "3.IH"(2) [OF a [symmetric], of m2] a b r show ?case
    by (auto split: prod.splits)
qed

lemma rec_replace_args_result:
  "fst (rec_replace_args f q v mp as m)
     = map (\<lambda>a. case fst (rec_replace f q v mp a []) of None \<Rightarrow> a | Some r \<Rightarrow> r) as
   \<and> fst (snd (rec_replace_args f q v mp as m))
     = list_ex (\<lambda>a. fst (rec_replace f q v mp a []) \<noteq> None) as"
proof (induction as arbitrary: m)
  case Nil
  show ?case by simp
next
  case (Cons a as)
  obtain r1 m1 where ra: "rec_replace f q v mp a m = (r1, m1)" by force
  obtain xs cn m2 where rb: "rec_replace_args f q v mp as m1 = (xs, cn, m2)"
    by (metis prod_cases3)
  have r: "fst (rec_replace f q v mp a []) = r1"
    using rec_replace_mapping_indep(1) [of f q v mp a m "[]"] ra by simp
  have step: "rec_replace_args f q v mp (a # as) m
      = ((case r1 of None \<Rightarrow> a | Some r \<Rightarrow> r) # xs, r1 \<noteq> None \<or> cn, m2)"
    by (simp add: ra rb)
  from Cons.IH [of m1] rb
  have xs: "xs = map (\<lambda>a. case fst (rec_replace f q v mp a []) of None \<Rightarrow> a | Some r \<Rightarrow> r) as"
    and cn: "cn = list_ex (\<lambda>a. fst (rec_replace f q v mp a []) \<noteq> None) as"
    by simp_all
  show ?case unfolding step using xs cn r by simp
qed

text \<open>
  The result of \<^verbatim>\<open>rec_replace\<close> at the root, from the results at the arguments.
\<close>

lemma rec_replace_root:
  "fst (rec_replace f q v mp (Node c p k kv as) m) =
     (if list_ex (\<lambda>a. fst (rec_replace f q v mp a []) \<noteq> None) as
      then Some (f c (map (\<lambda>a. case fst (rec_replace f q v mp a []) of
                                    None \<Rightarrow> a | Some r \<Rightarrow> r) as))
      else map_option (v (Node c p k kv as)) (q (Node c p k kv as)))"
  "snd (rec_replace f q v mp (Node c p k kv as) m) =
     (if list_ex (\<lambda>a. fst (rec_replace f q v mp a []) \<noteq> None) as \<or> \<not> mp
      then snd (snd (rec_replace_args f q v mp as m))
      else (case q (Node c p k kv as) of
              Some r \<Rightarrow> AList.update (Node c p k kv as) (v (Node c p k kv as) r)
                          (snd (snd (rec_replace_args f q v mp as m)))
            | None \<Rightarrow> snd (snd (rec_replace_args f q v mp as m))))"
  using rec_replace_args_result [of f q v mp as m]
  by (auto simp: Let_def split: prod.splits option.splits)

text \<open>
  \<^verbatim>\<open>rec_replace\<close> returns a node, and not \<^verbatim>\<open>None\<close>, exactly when the query holds at some
  node of the tree.
\<close>

lemma rec_replace_changed:
  "(fst (rec_replace f q v mp n m) \<noteq> None) = list_ex (\<lambda>x. q x \<noteq> None) (preorder n)"
proof (induction n arbitrary: m)
  case (Node c p k kv as)
  have ch: "list_ex (\<lambda>a. fst (rec_replace f q v mp a []) \<noteq> None) as
            = list_ex (\<lambda>a. list_ex (\<lambda>x. q x \<noteq> None) (preorder a)) as"
    using Node.IH by (simp add: list_ex_iff)
  show ?case
    unfolding rec_replace_root(1) ch
    by (auto simp: list_ex_iff)
qed

text \<open>
  C6. \<^verbatim>\<open>replace\<close> rewrites every argument of a node first. A child changed when
  \<^verbatim>\<open>rec_replace\<close> returned a node for it and not \<^verbatim>\<open>None\<close>, which is when the query holds
  somewhere in the child. When at least one child changed, the result is the node rebuilt
  by its constructor from the rewritten children (each one is what \<^verbatim>\<open>replace\<close> returns for
  it), whatever the query says about the node or about the rebuilt node, and \<^verbatim>\<open>mapping\<close>
  is the dictionary that the children left, with no entry for the node. The query and the
  value are applied to the node itself only when no child changed; then the node is the
  result when the query fails. Without \<^verbatim>\<open>map\<close> no dictionary is returned.
\<close>

theorem replace_bottom_up:
  "fst (replace func query val mp (Node c p k kv as)) =
     (if list_ex (\<lambda>arg. fst (rec_replace func query val mp arg []) \<noteq> None) as
      then func c (map (\<lambda>arg. fst (replace func query val mp arg)) as)
      else (case query (Node c p k kv as) of
              Some result \<Rightarrow> val (Node c p k kv as) result
            | None \<Rightarrow> Node c p k kv as))
   \<and> snd (replace func query val mp (Node c p k kv as)) =
     (if \<not> mp then None
      else if list_ex (\<lambda>arg. fst (rec_replace func query val mp arg []) \<noteq> None) as
      then Some (snd (snd (rec_replace_args func query val mp as [])))
      else (case query (Node c p k kv as) of
              Some result \<Rightarrow>
                Some (AList.update (Node c p k kv as) (val (Node c p k kv as) result)
                        (snd (snd (rec_replace_args func query val mp as []))))
            | None \<Rightarrow> Some (snd (snd (rec_replace_args func query val mp as [])))))
   \<and> (fst (rec_replace func query val mp n mapping) \<noteq> None)
       = list_ex (\<lambda>m. query m \<noteq> None) (preorder n)"
proof -
  have r: "fst (replace func query val mp x)
             = (case fst (rec_replace func query val mp x []) of None \<Rightarrow> x | Some r \<Rightarrow> r)" for x
    by (simp add: replace_def Let_def split: prod.splits)
  have s: "snd (replace func query val mp x)
             = (if \<not> mp then None else Some (snd (rec_replace func query val mp x [])))" for x
    by (simp add: replace_def Let_def split: prod.splits)
  have one: "fst (replace func query val mp (Node c p k kv as)) =
     (if list_ex (\<lambda>arg. fst (rec_replace func query val mp arg []) \<noteq> None) as
      then func c (map (\<lambda>arg. fst (replace func query val mp arg)) as)
      else (case query (Node c p k kv as) of
              Some result \<Rightarrow> val (Node c p k kv as) result
            | None \<Rightarrow> Node c p k kv as))"
    unfolding r rec_replace_root(1) by (simp split: option.splits)
  have two: "snd (replace func query val mp (Node c p k kv as)) =
     (if \<not> mp then None
      else if list_ex (\<lambda>arg. fst (rec_replace func query val mp arg []) \<noteq> None) as
      then Some (snd (snd (rec_replace_args func query val mp as [])))
      else (case query (Node c p k kv as) of
              Some result \<Rightarrow>
                Some (AList.update (Node c p k kv as) (val (Node c p k kv as) result)
                        (snd (snd (rec_replace_args func query val mp as []))))
            | None \<Rightarrow> Some (snd (snd (rec_replace_args func query val mp as [])))))"
    unfolding s rec_replace_root(2) by (simp split: option.splits)
  from one two rec_replace_changed [of func query val mp n mapping] show ?thesis by blast
qed

text \<open>
  Witness for C6, in the class \<^verbatim>\<open>Basic\<close>, whose constructor keeps its arguments as they
  are: \<^verbatim>\<open>Basic(x, 2).replace(q, lambda e: y, map=True)\<close> where the query \<^verbatim>\<open>q\<close> holds for
  every symbol and for every node of class \<^verbatim>\<open>Basic\<close>. The child \<open>x\<close> changes, so the
  result is \<^verbatim>\<open>Basic(y, 2)\<close> with the dictionary \<^verbatim>\<open>{x: y}\<close>: the query holds for the node and for
  the rebuilt node, and neither is replaced by \<open>y\<close>.
\<close>

theorem replace_bottom_up_witness:
  "list_ex (\<lambda>arg. fst (rec_replace Op
                (\<lambda>n. if ntype n = Symbol \<or> ntype n = Basic then Some () else None)
                (\<lambda>n r. Sym ''y'') True arg []) \<noteq> None) [Sym ''x'', IntN 2]
   \<and> (\<lambda>n. if ntype n = Symbol \<or> ntype n = Basic then Some () else None)
        (Node Basic [] None [] [Sym ''x'', IntN 2]) \<noteq> None
   \<and> (\<lambda>n. if ntype n = Symbol \<or> ntype n = Basic then Some () else None)
        (Op Basic [Sym ''y'', IntN 2]) \<noteq> None
   \<and> replace Op (\<lambda>n. if ntype n = Symbol \<or> ntype n = Basic then Some () else None)
        (\<lambda>n r. Sym ''y'') True (Node Basic [] None [] [Sym ''x'', IntN 2])
     = (Op Basic [Sym ''y'', IntN 2], Some [(Sym ''x'', Sym ''y'')])"
proof -
  let ?q = "\<lambda>n. if ntype n = Symbol \<or> ntype n = Basic then Some () else None"
  let ?v = "\<lambda>(n :: node) (r :: unit). Sym ''y''"
  have rx: "rec_replace Op ?q ?v True (Sym ''x'') [] = (Some (Sym ''y''), [(Sym ''x'', Sym ''y'')])"
    by (simp add: Sym_def Let_def)
  have r2: "rec_replace Op ?q ?v True (IntN 2) [(Sym ''x'', Sym ''y'')]
              = (None, [(Sym ''x'', Sym ''y'')])"
    by (simp add: IntN_def)
  have r2': "rec_replace Op ?q ?v True (IntN 2) [] = (None, [])"
    by (simp add: IntN_def)
  have ch: "list_ex (\<lambda>arg. fst (rec_replace Op ?q ?v True arg []) \<noteq> None) [Sym ''x'', IntN 2]"
    by (simp add: rx)
  have q1: "?q (Node Basic [] None [] [Sym ''x'', IntN 2]) \<noteq> None" by simp
  have q2: "?q (Op Basic [Sym ''y'', IntN 2]) \<noteq> None" by (simp add: Op_def)
  have ax: "fst (replace Op ?q ?v True (Sym ''x'')) = Sym ''y''"
    by (simp add: replace_def rx)
  have a2: "fst (replace Op ?q ?v True (IntN 2)) = IntN 2"
    by (simp add: replace_def r2')
  have ra: "snd (snd (rec_replace_args Op ?q ?v True [Sym ''x'', IntN 2] []))
              = [(Sym ''x'', Sym ''y'')]"
    by (simp add: rx r2)
  have f: "fst (replace Op ?q ?v True (Node Basic [] None [] [Sym ''x'', IntN 2]))
          = Op Basic (map (\<lambda>arg. fst (replace Op ?q ?v True arg)) [Sym ''x'', IntN 2])"
    using replace_bottom_up [of Op ?q ?v True Basic "[]" None "[]" "[Sym ''x'', IntN 2]",
        THEN conjunct1]
    by (simp only: ch if_True)
  have s: "snd (replace Op ?q ?v True (Node Basic [] None [] [Sym ''x'', IntN 2]))
          = Some (snd (snd (rec_replace_args Op ?q ?v True [Sym ''x'', IntN 2] [])))"
    using replace_bottom_up [of Op ?q ?v True Basic "[]" None "[]" "[Sym ''x'', IntN 2]",
        THEN conjunct2, THEN conjunct1]
    by (simp only: ch if_True not_True_eq_False if_False)
  from f have f': "fst (replace Op ?q ?v True (Node Basic [] None [] [Sym ''x'', IntN 2]))
          = Op Basic [Sym ''y'', IntN 2]"
    by (simp add: ax a2)
  from s have s': "snd (replace Op ?q ?v True (Node Basic [] None [] [Sym ''x'', IntN 2]))
          = Some [(Sym ''x'', Sym ''y'')]"
    by (simp only: ra)
  from f' s'
  have "fst (replace Op ?q ?v True (Node Basic [] None [] [Sym ''x'', IntN 2]))
          = Op Basic [Sym ''y'', IntN 2]
        \<and> snd (replace Op ?q ?v True (Node Basic [] None [] [Sym ''x'', IntN 2]))
          = Some [(Sym ''x'', Sym ''y'')]"
    by (rule conjI)
  then have "replace Op ?q ?v True (Node Basic [] None [] [Sym ''x'', IntN 2])
     = (Op Basic [Sym ''y'', IntN 2], Some [(Sym ''x'', Sym ''y'')])"
    by (simp add: prod_eq_iff)
  with ch q1 q2 show ?thesis by blast
qed

subsection \<open>match\<close>

text \<open>
  The scenario of the docstring of \<^verbatim>\<open>match\<close>: \<open>p*q**r\<close> against \<open>4*x**2\<close> binds \<open>p\<close>
  to 4, \<open>q\<close> to \<open>x\<close> and \<open>r\<close> to 2, and \<^verbatim>\<open>xreplace\<close> with these bindings gives the node
  back.
\<close>

lemma match_scenario:
  "match_node Op (Op Mul [IntN 4, Op PowC [Sym ''x'', IntN 2]])
     (Op Mul [WildN ''p'', Op PowC [WildN ''q'', WildN ''r'']])
   = Some [(WildN ''p'', IntN 4), (WildN ''q'', Sym ''x''), (WildN ''r'', IntN 2)]
   \<and> xreplace Op (Op Mul [WildN ''p'', Op PowC [WildN ''q'', WildN ''r'']])
        [(WildN ''p'', IntN 4), (WildN ''q'', Sym ''x''), (WildN ''r'', IntN 2)]
     = Op Mul [IntN 4, Op PowC [Sym ''x'', IntN 2]]"
  by (simp add: match_node_def Op_def WildN_def IntN_def Sym_def is_Wild_def is_Atom_def
      dict_copy_def Wild_matches_def keys_eq_def)

text \<open>
  C8 (the code differs). \<^verbatim>\<open>f(x).match(Basic(x))\<close> succeeds with the empty binding map:
  \<^verbatim>\<open>Basic.matches\<close> accepts \<^verbatim>\<open>f(x)\<close> as an instance of the pattern's class \<^verbatim>\<open>Basic\<close>, the two
  nodes are not equal, and their arguments are. \<^verbatim>\<open>Basic(x).xreplace({})\<close> is \<^verbatim>\<open>Basic(x)\<close>,
  which is not \<^verbatim>\<open>==\<close> to \<^verbatim>\<open>f(x)\<close>.
\<close>

theorem match_result_does_not_rebuild_subclass_instance:
  "match_node Op (Op (Function ''f'') [Sym ''x'']) (Op Basic [Sym ''x'']) = Some []
   \<and> \<not> node_eq (xreplace Op (Op Basic [Sym ''x'']) []) (VNode (Op (Function ''f'') [Sym ''x'']))"
  by (simp add: match_node_def Op_def Sym_def is_Wild_def is_Atom_def dict_copy_def keys_eq_def)

subsection \<open>The binding map of matches\<close>

lemma Wild_matches_grows:
  "r < length h \<Longrightarrow> Wild_matches h self expr r = (h', res) \<Longrightarrow> grows h r h' res"
  by (auto simp: Wild_matches_def dict_copy_def grows_def update_conv' map_le_def
           split: option.splits if_splits)

lemma grows_trans:
  assumes "d < length h" "grows h d h1 (Some d1)" "grows h1 d1 h2 res"
  shows "grows h d h2 res"
proof -
  from assms(2) obtain e1 where h1: "h1 = h @ e1" and d1: "d1 < length h1"
    and c1: "d1 = d \<or> length h \<le> d1" and m1: "map_of (h ! d) \<subseteq>\<^sub>m map_of (h1 ! d1)"
    by (auto simp: grows_def)
  from assms(3) obtain e2 where h2: "h2 = h1 @ e2"
    and r2: "\<forall>d2. res = Some d2 \<longrightarrow> d2 < length h2 \<and> (d2 = d1 \<or> length h1 \<le> d2)
                \<and> map_of (h1 ! d1) \<subseteq>\<^sub>m map_of (h2 ! d2)"
    by (auto simp: grows_def)
  have "\<exists>ext. h2 = h @ ext" using h1 h2 by simp
  moreover have "\<forall>d2. res = Some d2 \<longrightarrow> d2 < length h2 \<and> (d2 = d \<or> length h \<le> d2)
                \<and> map_of (h ! d) \<subseteq>\<^sub>m map_of (h2 ! d2)"
  proof (intro allI impI)
    fix d2 assume "res = Some d2"
    with r2 have a: "d2 < length h2" and b: "d2 = d1 \<or> length h1 \<le> d2"
      and c: "map_of (h1 ! d1) \<subseteq>\<^sub>m map_of (h2 ! d2)" by auto
    from b c1 h1 have "d2 = d \<or> length h \<le> d2" by auto
    moreover from m1 c have "map_of (h ! d) \<subseteq>\<^sub>m map_of (h2 ! d2)" by (rule map_le_trans)
    ultimately show "d2 < length h2 \<and> (d2 = d \<or> length h \<le> d2)
                \<and> map_of (h ! d) \<subseteq>\<^sub>m map_of (h2 ! d2)" using a by simp
  qed
  ultimately show ?thesis by (simp add: grows_def)
qed

lemma grows_refl: "r < length h \<Longrightarrow> grows h r h (Some r)"
  by (simp add: grows_def)

lemma grows_refl_none: "grows h r h None"
  by (simp add: grows_def)

lemma grows_copy:
  assumes "r < length h" "grows (h @ [h ! r]) (length h) h' res"
  shows "grows h r h' res"
  using assms by (auto simp: grows_def nth_append)

lemma matches_grows:
  "r < length h \<Longrightarrow> matches func h self expr r = (h', res) \<Longrightarrow> grows h r h' res"
  "d < length h \<Longrightarrow> matches_args func h as bs d = (h', res) \<Longrightarrow> grows h d h' res"
proof (induction func h self expr r and func h as bs d arbitrary: h' res and h' res
       rule: matches_matches_args.induct)
  case (1 func h self c p k kv as repl_dict)
  show ?case
  proof (cases "is_Wild self")
    case True
    with "1.prems" show ?thesis by (auto intro: Wild_matches_grows)
  next
    case nw: False
    show ?thesis
    proof (cases "is_Atom self \<or> \<not> issubclass c (ntype self)
                  \<or> node_eq self (VNode (Node c p k kv as)) \<or> length (args self) \<noteq> length as")
      case True
      with nw "1.prems" show ?thesis
        by (auto simp del: node_eq.simps simp: grows_refl grows_refl_none split: if_splits)
    next
      case False
      with nw "1.prems"(2)
      have m: "matches_args func (h @ [h ! repl_dict]) (args self) as (length h) = (h', res)"
        by (simp add: dict_copy_def del: node_eq.simps)
      have "grows (h @ [h ! repl_dict]) (length h) h' res"
        using "1.IH" [of "h @ [h ! repl_dict]" "length h" h' res] nw False m
        by (simp add: dict_copy_def del: node_eq.simps)
      with "1.prems"(1) show ?thesis by (rule grows_copy)
    qed
  qed
next
  case (2 func h arg rest other_arg other_rest d)
  show ?case
  proof (cases "node_eq arg (VNode other_arg)")
    case True
    with "2.prems"(2) have "matches_args func h rest other_rest d = (h', res)"
      by (simp del: node_eq.simps)
    with True "2.prems"(1) "2.IH"(1) show ?thesis by blast
  next
    case False
    obtain h1 r1 where m1: "matches func h (xreplace func arg (h ! d)) other_arg d = (h1, r1)" by force
    from "2.IH"(2) [OF False "2.prems"(1) m1] have g1: "grows h d h1 r1" .
    show ?thesis
    proof (cases r1)
      case None
      with False m1 "2.prems"(2) have "h' = h1" "res = None"
        by (simp_all del: node_eq.simps)
      with g1 None show ?thesis by simp
    next
      case (Some d1)
      with False m1 "2.prems"(2) have m2: "matches_args func h1 rest other_rest d1 = (h', res)"
        by (simp del: node_eq.simps)
      from g1 Some have d1: "d1 < length h1" by (simp add: grows_def)
      have "grows h1 d1 h' res"
        using "2.IH"(3) [OF False m1 [symmetric] _ d1 m2] Some by simp
      with "2.prems"(1) g1 Some show ?thesis by (auto intro: grows_trans)
    qed
  qed
next
  case (3 func h other_rest d)
  then show ?case by (auto simp: grows_refl)
next
  case (4 func h arg rest d)
  then show ?case by (auto simp: grows_refl)
qed

text \<open>
  C10. \<^verbatim>\<open>matches\<close> never mutates the binding map it is given. Every dictionary that exists
  before the call, the caller's among them, is the same after it, on success and on
  failure; a returned map is the caller's map itself or a dictionary allocated during the
  call, which has all the bindings of the caller's map.
\<close>

theorem matches_never_mutates_binding_map:
  assumes "repl_dict < length h" and "matches func h self expr repl_dict = (h', res)"
  shows "take (length h) h' = h \<and> h' ! repl_dict = h ! repl_dict
    \<and> (\<forall>d. res = Some d \<longrightarrow>
          (d = repl_dict \<or> (length h \<le> d \<and> d < length h'))
          \<and> map_of (h ! repl_dict) \<subseteq>\<^sub>m map_of (h' ! d))"
proof -
  from assms have "grows h repl_dict h' res" by (rule matches_grows(1))
  with assms(1) show ?thesis by (auto simp: grows_def nth_append)
qed

text \<open>
  Witness for C10: the template \<open>f(p, q)\<close> with two wildcards against \<open>f(4, x)\<close>, with the
  caller's map at address 0. The result is a new dictionary at address 3.
\<close>

theorem matches_never_mutates_binding_map_witness:
  "(0::nat) < length [Nil :: dict]
   \<and> matches Op [Nil] (Op (Function ''f'') [WildN ''p'', WildN ''q''])
        (Op (Function ''f'') [IntN 4, Sym ''x'']) 0
     = ([Nil, Nil, [(WildN ''p'', IntN 4)], [(WildN ''p'', IntN 4), (WildN ''q'', Sym ''x'')]],
        Some 3)
   \<and> take (length [Nil :: dict])
        [Nil, Nil, [(WildN ''p'', IntN 4)], [(WildN ''p'', IntN 4), (WildN ''q'', Sym ''x'')]]
     = [Nil]"
proof -
  have l: "(0::nat) < length [Nil :: dict]" by simp
  have m: "matches Op [Nil] (Op (Function ''f'') [WildN ''p'', WildN ''q''])
        (Op (Function ''f'') [IntN 4, Sym ''x'']) 0
     = ([Nil, Nil, [(WildN ''p'', IntN 4)], [(WildN ''p'', IntN 4), (WildN ''q'', Sym ''x'')]],
        Some 3)"
    by (simp add: Op_def WildN_def IntN_def Sym_def is_Wild_def is_Atom_def dict_copy_def
        Wild_matches_def keys_eq_def)
  from matches_never_mutates_binding_map [OF l m] l m show ?thesis by blast
qed

subsection \<open>dummy_eq\<close>

text \<open>
  C7 (as the code has it). \<^verbatim>\<open>dummy_eq\<close> raises \<^verbatim>\<open>ValueError\<close> when more than one dummy
  symbol is free in \<^verbatim>\<open>a\<close>; when exactly one is and no symbol is given, it raises
  \<^verbatim>\<open>ValueError\<close> when \<^verbatim>\<open>b\<close> has more than one free symbol; with one dummy \<open>d\<close> and one
  symbol \<open>s\<close> (given, or the only free symbol of \<^verbatim>\<open>b\<close>) it returns
  \<^verbatim>\<open>a.subs(d, tmp) == b.subs(s, tmp)\<close> for one new dummy \<^verbatim>\<open>tmp\<close>; and when no dummy symbol
  is free in \<^verbatim>\<open>a\<close> it returns \<^verbatim>\<open>a == b\<close> without looking at the free symbols of \<^verbatim>\<open>b\<close>.
\<close>

theorem dummy_eq_errors_and_result:
  "(length (filter is_Dummy (free_symbols a)) > 1 \<longrightarrow> dummy_eq func cnt a b symbol = Inl ValueError)
   \<and> (length (filter is_Dummy (free_symbols a)) = 1 \<and> symbol = None
        \<and> length (free_symbols b) > 1 \<longrightarrow> dummy_eq func cnt a b symbol = Inl ValueError)
   \<and> (filter is_Dummy (free_symbols a) = [d]
        \<and> (symbol = Some s \<or> (symbol = None \<and> free_symbols b = [s])) \<longrightarrow>
        dummy_eq func cnt a b symbol
          = Inr (node_eq (subs_old_new func (Suc cnt) a d (DummyN cnt))
                   (VNode (subs_old_new func (Suc cnt) b s (DummyN cnt)))))
   \<and> (filter is_Dummy (free_symbols a) = [] \<longrightarrow>
        dummy_eq func cnt a b symbol = Inr (node_eq a (VNode b)))"
  by (auto simp: dummy_eq_def Let_def split: list.splits option.splits)

text \<open>
  Witness for C7: two dummies in \<^verbatim>\<open>a\<close>; one dummy in \<^verbatim>\<open>a\<close> and two symbols in \<^verbatim>\<open>b\<close>; and
  the docstring's \<open>u**2\<close> against \<open>x**2\<close>, which are equal up to the dummy.
\<close>

theorem dummy_eq_errors_and_result_witness:
  "length (filter is_Dummy (free_symbols (Op Add [DummyN 0, DummyN 1]))) > 1
   \<and> dummy_eq Op 2 (Op Add [DummyN 0, DummyN 1]) (Sym ''x'') None = Inl ValueError
   \<and> length (filter is_Dummy (free_symbols (Op Add [DummyN 0, IntN 1]))) = 1
   \<and> length (free_symbols (Op Add [Sym ''y'', Sym ''z''])) > 1
   \<and> dummy_eq Op 1 (Op Add [DummyN 0, IntN 1]) (Op Add [Sym ''y'', Sym ''z'']) None = Inl ValueError
   \<and> filter is_Dummy (free_symbols (Op PowC [DummyN 0, IntN 2])) = [DummyN 0]
   \<and> free_symbols (Op PowC [Sym ''x'', IntN 2]) = [Sym ''x'']
   \<and> dummy_eq Op 1 (Op PowC [DummyN 0, IntN 2]) (Op PowC [Sym ''x'', IntN 2]) None
       = Inr (node_eq (subs_old_new Op 2 (Op PowC [DummyN 0, IntN 2]) (DummyN 0) (DummyN 1))
                (VNode (subs_old_new Op 2 (Op PowC [Sym ''x'', IntN 2]) (Sym ''x'') (DummyN 1))))
   \<and> node_eq (subs_old_new Op 2 (Op PowC [DummyN 0, IntN 2]) (DummyN 0) (DummyN 1))
                (VNode (subs_old_new Op 2 (Op PowC [Sym ''x'', IntN 2]) (Sym ''x'') (DummyN 1)))"
proof -
  have h1: "length (filter is_Dummy (free_symbols (Op Add [DummyN 0, DummyN 1]))) > 1"
    by (simp add: Op_def DummyN_def is_Dummy_def)
  have h2: "length (filter is_Dummy (free_symbols (Op Add [DummyN 0, IntN 1]))) = 1"
    by (simp add: Op_def DummyN_def IntN_def is_Dummy_def)
  have h3: "length (free_symbols (Op Add [Sym ''y'', Sym ''z''])) > 1"
    by (simp add: Op_def Sym_def)
  have h4: "filter is_Dummy (free_symbols (Op PowC [DummyN 0, IntN 2])) = [DummyN 0]"
    by (simp add: Op_def DummyN_def IntN_def is_Dummy_def)
  have h5: "free_symbols (Op PowC [Sym ''x'', IntN 2]) = [Sym ''x'']"
    by (simp add: Op_def Sym_def IntN_def)
  have h6: "node_eq (subs_old_new Op 2 (Op PowC [DummyN 0, IntN 2]) (DummyN 0) (DummyN 1))
                (VNode (subs_old_new Op 2 (Op PowC [Sym ''x'', IntN 2]) (Sym ''x'') (DummyN 1)))"
    by (simp add: Op_def Sym_def DummyN_def IntN_def subs_old_new_def subs_apply_def
        drop_same_def aresame_def is_Symbol_def subs_pair_def keys_eq_def dict_eq_def)
  have s2: "Suc 1 = 2" by simp
  from dummy_eq_errors_and_result [of "Op Add [DummyN 0, DummyN 1]" Op 2 "Sym ''x''" None] h1
  have r1: "dummy_eq Op 2 (Op Add [DummyN 0, DummyN 1]) (Sym ''x'') None = Inl ValueError"
    by blast
  from dummy_eq_errors_and_result [of "Op Add [DummyN 0, IntN 1]" Op 1
      "Op Add [Sym ''y'', Sym ''z'']" None] h2 h3
  have r2: "dummy_eq Op 1 (Op Add [DummyN 0, IntN 1]) (Op Add [Sym ''y'', Sym ''z'']) None
      = Inl ValueError"
    by blast
  from dummy_eq_errors_and_result [of "Op PowC [DummyN 0, IntN 2]" Op 1
      "Op PowC [Sym ''x'', IntN 2]" None "DummyN 0" "Sym ''x''"] h4 h5
  have r3: "dummy_eq Op 1 (Op PowC [DummyN 0, IntN 2]) (Op PowC [Sym ''x'', IntN 2]) None
       = Inr (node_eq (subs_old_new Op (Suc 1) (Op PowC [DummyN 0, IntN 2]) (DummyN 0) (DummyN 1))
                (VNode (subs_old_new Op (Suc 1) (Op PowC [Sym ''x'', IntN 2]) (Sym ''x'') (DummyN 1))))"
    by blast
  from h1 h2 h3 h4 h5 h6 r1 r2 r3 show ?thesis unfolding s2 by blast
qed

text \<open>
  Counterexample to C7 as stated: no symbol is given and \<^verbatim>\<open>b = y + z\<close> has two free
  symbols, but \<^verbatim>\<open>a = x\<close> has no dummy symbol, so \<^verbatim>\<open>dummy_eq\<close> returns \<^verbatim>\<open>a == b\<close>, which is
  \<^verbatim>\<open>False\<close>, and raises nothing.
\<close>

theorem dummy_eq_no_error_without_dummy:
  "length (free_symbols (Op Add [Sym ''y'', Sym ''z''])) > 1
   \<and> dummy_eq Op 0 (Sym ''x'') (Op Add [Sym ''y'', Sym ''z'']) None = Inr False"
  by (simp add: dummy_eq_def Op_def Sym_def is_Dummy_def)

subsection \<open>The order of an unordered substitution\<close>

lemma mset_groups:
  "distinct ks \<Longrightarrow>
   mset (concat (map (\<lambda>v. sort_key key (filter (\<lambda>x. f x = v) xs)) ks))
     = filter_mset (\<lambda>x. f x \<in> set ks) (mset xs)"
proof (induction ks)
  case Nil
  show ?case by simp
next
  case (Cons v ks)
  then have "v \<notin> set ks" and IH: "mset (concat (map (\<lambda>v. sort_key key (filter (\<lambda>x. f x = v) xs)) ks))
     = filter_mset (\<lambda>x. f x \<in> set ks) (mset xs)" by simp_all
  have "filter_mset (\<lambda>x. f x = v) (mset xs) + filter_mset (\<lambda>x. f x \<in> set ks) (mset xs)
        = filter_mset (\<lambda>x. f x \<in> set (v # ks)) (mset xs)"
    using \<open>v \<notin> set ks\<close> by (induction xs) auto
  with IH show ?case by simp
qed

lemma sorted_group:
  fixes f :: "'a \<Rightarrow> 'b::linorder" and key :: "'a \<Rightarrow> 'c::linorder"
  shows "sorted_wrt (\<lambda>a b. f b < f a \<or> (f a = f b \<and> key a \<le> key b))
             (sort_key key (filter (\<lambda>x. f x = v) xs))"
proof -
  have "sorted (map key (sort_key key (filter (\<lambda>x. f x = v) xs)))" by (rule sorted_sort_key)
  then have s: "sorted_wrt (\<lambda>a b. key a \<le> key b) (sort_key key (filter (\<lambda>x. f x = v) xs))"
    by (simp only: sorted_map)
  have m: "\<And>a. a \<in> set (sort_key key (filter (\<lambda>x. f x = v) xs)) \<Longrightarrow> f a = v" by simp
  show ?thesis
    using s
  proof (rule sorted_wrt_mono_rel [rotated])
    fix a b
    assume "a \<in> set (sort_key key (filter (\<lambda>x. f x = v) xs))"
      "b \<in> set (sort_key key (filter (\<lambda>x. f x = v) xs))" "key a \<le> key b"
    then show "f b < f a \<or> (f a = f b \<and> key a \<le> key b)" using m by metis
  qed
qed


lemma group_member:
  "y \<in> set (concat (map (\<lambda>v. sort_key key (filter (\<lambda>x. f x = v) xs)) ks)) \<Longrightarrow> f y \<in> set ks"
  by auto

lemma sorted_groups:
  fixes f :: "'a \<Rightarrow> 'b::linorder" and key :: "'a \<Rightarrow> 'c::linorder"
  assumes "sorted_wrt (\<lambda>a b. b < a) ks"
  shows "sorted_wrt (\<lambda>a b. f b < f a \<or> (f a = f b \<and> key a \<le> key b))
           (concat (map (\<lambda>v. sort_key key (filter (\<lambda>x. f x = v) xs)) ks))"
  using assms
proof (induction ks)
  case Nil
  show ?case by simp
next
  case (Cons v ks)
  from Cons.prems have lt: "\<And>w. w \<in> set ks \<Longrightarrow> w < v" and tl: "sorted_wrt (\<lambda>a b. b < a) ks"
    by simp_all
  have "sorted_wrt (\<lambda>a b. f b < f a \<or> (f a = f b \<and> key a \<le> key b))
          (sort_key key (filter (\<lambda>x. f x = v) xs)
           @ concat (map (\<lambda>v. sort_key key (filter (\<lambda>x. f x = v) xs)) ks))"
  proof (subst sorted_wrt_append, intro conjI ballI)
    show "sorted_wrt (\<lambda>a b. f b < f a \<or> (f a = f b \<and> key a \<le> key b))
            (sort_key key (filter (\<lambda>x. f x = v) xs))"
      by (rule sorted_group)
    show "sorted_wrt (\<lambda>a b. f b < f a \<or> (f a = f b \<and> key a \<le> key b))
            (concat (map (\<lambda>v. sort_key key (filter (\<lambda>x. f x = v) xs)) ks))"
      by (rule Cons.IH [OF tl])
    fix a b
    assume a: "a \<in> set (sort_key key (filter (\<lambda>x. f x = v) xs))"
      and b: "b \<in> set (concat (map (\<lambda>v. sort_key key (filter (\<lambda>x. f x = v) xs)) ks))"
    from a have "f a = v" by simp
    moreover from b have "f b \<in> set ks" by (rule group_member)
    ultimately show "f b < f a \<or> (f a = f b \<and> key a \<le> key b)" using lt by simp
  qed
  then show ?case by simp
qed

lemma distinct_dict_of_aux:
  "distinct (map fst d) \<Longrightarrow> distinct (map fst (foldl (\<lambda>d (k, v). AList.update k v d) d xs))"
  by (induction xs arbitrary: d) (auto simp: distinct_update)

lemma distinct_dict_of: "distinct (map fst (dict_of xs))"
  by (simp add: dict_of_def distinct_dict_of_aux)

lemma order_unordered_non_atoms:
  "\<not> list_all (\<lambda>(k, v). is_Atom k) items \<Longrightarrow>
   order_unordered count_ops key pkey items
     = map (\<lambda>k. (k, the (map_of items k)))
         (concat (map (\<lambda>v. sort_key key (filter (\<lambda>x. ops_of count_ops x = v) (map fst items)))
            (rev (sort (remdups (map (ops_of count_ops) (map fst items)))))))"
proof -
  have a: "\<And>v. map fst (filter (\<lambda>(old, new). ops_of count_ops old = v) items)
             = filter (\<lambda>x. ops_of count_ops x = v) (map fst items)"
    by (simp add: filter_map comp_def case_prod_unfold)
  have b: "map (\<lambda>(old, new). ops_of count_ops old) items = map (ops_of count_ops) (map fst items)"
    by (simp add: case_prod_unfold)
  assume "\<not> list_all (\<lambda>(k, v). is_Atom k) items"
  then show ?thesis
    unfolding order_unordered_def Let_def a b by simp
qed

lemma mset_newseq:
  fixes f :: "'a \<Rightarrow> 'b::linorder"
  shows "mset (concat (map (\<lambda>v. sort_key key (filter (\<lambda>x. f x = v) xs))
            (rev (sort (remdups (map f xs)))))) = mset xs"
proof -
  have "distinct (rev (sort (remdups (map f xs))))" by simp
  then have "mset (concat (map (\<lambda>v. sort_key key (filter (\<lambda>x. f x = v) xs))
            (rev (sort (remdups (map f xs))))))
     = filter_mset (\<lambda>x. f x \<in> set (rev (sort (remdups (map f xs))))) (mset xs)"
    by (rule mset_groups)
  also have "\<dots> = mset xs" by (simp add: filter_mset_eq_conv)
  finally show ?thesis .
qed

lemma pairs_again:
  "distinct (map fst items) \<Longrightarrow> map (\<lambda>k. (k, the (map_of items k))) (map fst items) = items"
proof -
  assume d: "distinct (map fst items)"
  have "map (\<lambda>p. (fst p, the (map_of items (fst p)))) items = items"
  proof (rule map_idI)
    fix p assume "p \<in> set items"
    then have "(fst p, snd p) \<in> set items" by simp
    with d have "map_of items (fst p) = Some (snd p)" by (rule map_of_is_SomeI)
    then show "(fst p, the (map_of items (fst p))) = p" by simp
  qed
  then show ?thesis by (simp add: comp_def)
qed


text \<open>
  C2 (as the code has it). When \<^verbatim>\<open>subs\<close> is given a \<^verbatim>\<open>dict\<close> or \<^verbatim>\<open>set\<close> whose keys are not all
  atoms, the pairs of \<^verbatim>\<open>dict(sequence)\<close> are rearranged (the result is a permutation of
  them) into descending order of \<^verbatim>\<open>(count_ops, len(args))\<close> of the old side, pairs with the
  same value being in ascending order of \<^verbatim>\<open>default_sort_key\<close>, and \<^verbatim>\<open>_subs\<close> is applied pair
  by pair in that order.
\<close>

theorem unordered_pairs_sorted_descending:
  fixes key :: "node \<Rightarrow> 'a::linorder" and pkey :: "node \<times> node \<Rightarrow> 'b::linorder"
  assumes "\<not> list_all (\<lambda>(k, v). is_Atom k) (dict_of (drop_same sequence))"
  shows "subs func count_ops key pkey cnt self (Unordered sequence) False
           = Inr (subs_sequential func self
                    (order_unordered count_ops key pkey (dict_of (drop_same sequence))))
    \<and> mset (order_unordered count_ops key pkey (dict_of (drop_same sequence)))
        = mset (dict_of (drop_same sequence))
    \<and> sorted_wrt (\<lambda>a b. ops_of count_ops (fst b) < ops_of count_ops (fst a)
                     \<or> (ops_of count_ops (fst a) = ops_of count_ops (fst b)
                         \<and> key (fst a) \<le> key (fst b)))
         (order_unordered count_ops key pkey (dict_of (drop_same sequence)))"
proof -
  let ?items = "dict_of (drop_same sequence)"
  let ?newseq = "concat (map (\<lambda>v. sort_key key (filter (\<lambda>x. ops_of count_ops x = v) (map fst ?items)))
            (rev (sort (remdups (map (ops_of count_ops) (map fst ?items))))))"
  have R: "order_unordered count_ops key pkey ?items
             = map (\<lambda>k. (k, the (map_of ?items k))) ?newseq"
    using assms by (rule order_unordered_non_atoms)
  have d: "distinct (map fst ?items)" by (rule distinct_dict_of)
  have "mset (map (\<lambda>k. (k, the (map_of ?items k))) ?newseq)
          = image_mset (\<lambda>k. (k, the (map_of ?items k))) (mset ?newseq)"
    by (simp only: mset_map)
  also have "\<dots> = image_mset (\<lambda>k. (k, the (map_of ?items k))) (mset (map fst ?items))"
    by (simp only: mset_newseq)
  also have "\<dots> = mset (map (\<lambda>k. (k, the (map_of ?items k))) (map fst ?items))"
    by (simp only: mset_map)
  also have "\<dots> = mset ?items" using d by (simp only: pairs_again)
  finally have perm: "mset (order_unordered count_ops key pkey ?items) = mset ?items"
    by (simp only: R)
  have "sorted_wrt (\<lambda>a b. b < a) (rev (sort (remdups (map (ops_of count_ops) (map fst ?items)))))"
    by (simp only: sorted_wrt_rev) (simp add: strict_sorted_iff)
  then have "sorted_wrt (\<lambda>a b. ops_of count_ops b < ops_of count_ops a
                     \<or> (ops_of count_ops a = ops_of count_ops b \<and> key a \<le> key b)) ?newseq"
    by (rule sorted_groups)
  then have srt: "sorted_wrt (\<lambda>a b. ops_of count_ops (fst b) < ops_of count_ops (fst a)
                     \<or> (ops_of count_ops (fst a) = ops_of count_ops (fst b)
                         \<and> key (fst a) \<le> key (fst b)))
         (order_unordered count_ops key pkey ?items)"
    by (simp only: R sorted_wrt_map fst_conv)
  have "subs func count_ops key pkey cnt self (Unordered sequence) False
           = Inr (subs_sequential func self (order_unordered count_ops key pkey ?items))"
    by (simp add: subs_def subs_apply_def)
  with perm srt show ?thesis by blast
qed

text \<open>
  Witness for C2: \<^verbatim>\<open>(f(x) + x).subs({x: a, f(x): b})\<close>, with the number of arguments as
  \<^verbatim>\<open>count_ops\<close> and the size as sort key. \<open>f(x)\<close> is replaced first, and the result is
  \<open>b + a\<close>.
\<close>

theorem unordered_pairs_sorted_descending_witness:
  "\<not> list_all (\<lambda>(k, v). is_Atom k)
      (dict_of (drop_same [(Sym ''x'', Sym ''a''), (Op (Function ''f'') [Sym ''x''], Sym ''b'')]))
   \<and> subs Op (\<lambda>n. Some (int (length (args n)))) (size :: node \<Rightarrow> nat) (\<lambda>(k, v). size k) 0
        (Op Add [Op (Function ''f'') [Sym ''x''], Sym ''x''])
        (Unordered [(Sym ''x'', Sym ''a''), (Op (Function ''f'') [Sym ''x''], Sym ''b'')]) False
      = Inr (subs_sequential Op (Op Add [Op (Function ''f'') [Sym ''x''], Sym ''x''])
               [(Op (Function ''f'') [Sym ''x''], Sym ''b''), (Sym ''x'', Sym ''a'')])"
proof -
  have na: "\<not> list_all (\<lambda>(k, v). is_Atom k)
      (dict_of (drop_same [(Sym ''x'', Sym ''a''), (Op (Function ''f'') [Sym ''x''], Sym ''b'')]))"
    by (simp add: dict_of_def drop_same_def aresame_def Sym_def Op_def is_Symbol_def
        is_Atom_def keys_eq_def dict_eq_def)
  have ord: "order_unordered (\<lambda>n. Some (int (length (args n)))) (size :: node \<Rightarrow> nat)
      (\<lambda>(k, v). size k)
      (dict_of (drop_same [(Sym ''x'', Sym ''a''), (Op (Function ''f'') [Sym ''x''], Sym ''b'')]))
    = [(Op (Function ''f'') [Sym ''x''], Sym ''b''), (Sym ''x'', Sym ''a'')]"
    by (simp add: order_unordered_def dict_of_def drop_same_def aresame_def Sym_def Op_def
        is_Symbol_def is_Atom_def ops_of_def keys_eq_def dict_eq_def)
  from unordered_pairs_sorted_descending [OF na, of Op "\<lambda>n. Some (int (length (args n)))"
      "size :: node \<Rightarrow> nat" "\<lambda>(k, v). size k" 0
      "Op Add [Op (Function ''f'') [Sym ''x''], Sym ''x'']"]
  have "subs Op (\<lambda>n. Some (int (length (args n)))) (size :: node \<Rightarrow> nat) (\<lambda>(k, v). size k) 0
        (Op Add [Op (Function ''f'') [Sym ''x''], Sym ''x''])
        (Unordered [(Sym ''x'', Sym ''a''), (Op (Function ''f'') [Sym ''x''], Sym ''b'')]) False
      = Inr (subs_sequential Op (Op Add [Op (Function ''f'') [Sym ''x''], Sym ''x''])
               (order_unordered (\<lambda>n. Some (int (length (args n)))) (size :: node \<Rightarrow> nat)
                  (\<lambda>(k, v). size k)
                  (dict_of (drop_same [(Sym ''x'', Sym ''a''),
                     (Op (Function ''f'') [Sym ''x''], Sym ''b'')]))))"
    by blast
  then have "subs Op (\<lambda>n. Some (int (length (args n)))) (size :: node \<Rightarrow> nat) (\<lambda>(k, v). size k) 0
        (Op Add [Op (Function ''f'') [Sym ''x''], Sym ''x''])
        (Unordered [(Sym ''x'', Sym ''a''), (Op (Function ''f'') [Sym ''x''], Sym ''b'')]) False
      = Inr (subs_sequential Op (Op Add [Op (Function ''f'') [Sym ''x''], Sym ''x''])
               [(Op (Function ''f'') [Sym ''x''], Sym ''b''), (Sym ''x'', Sym ''a'')])"
    unfolding ord .
  with na show ?thesis by blast
qed

text \<open>
  Counterexample to C2 as stated: for \<^verbatim>\<open>{x: a, f(x): b}\<close> the pair of \<open>f(x)\<close>, which has
  the larger \<^verbatim>\<open>(count_ops, len(args))\<close>, comes first, so the order is not ascending;
  \<^verbatim>\<open>(f(x) + x).subs({x: a, f(x): b})\<close> is \<open>b + a\<close>, while the ascending order would give
  \<open>f(a) + a\<close>.
\<close>

theorem unordered_pairs_not_ascending:
  "order_unordered (\<lambda>n. Some (int (length (args n)))) (size :: node \<Rightarrow> nat) (\<lambda>(k, v). size k)
      (dict_of (drop_same [(Sym ''x'', Sym ''a''), (Op (Function ''f'') [Sym ''x''], Sym ''b'')]))
    = [(Op (Function ''f'') [Sym ''x''], Sym ''b''), (Sym ''x'', Sym ''a'')]
   \<and> ops_of (\<lambda>n. Some (int (length (args n)))) (Sym ''x'')
       < ops_of (\<lambda>n. Some (int (length (args n)))) (Op (Function ''f'') [Sym ''x''])
   \<and> subs Op (\<lambda>n. Some (int (length (args n)))) (size :: node \<Rightarrow> nat) (\<lambda>(k, v). size k) 0
        (Op Add [Op (Function ''f'') [Sym ''x''], Sym ''x''])
        (Unordered [(Sym ''x'', Sym ''a''), (Op (Function ''f'') [Sym ''x''], Sym ''b'')]) False
      = Inr (Op Add [Sym ''b'', Sym ''a''])
   \<and> subs_sequential Op (Op Add [Op (Function ''f'') [Sym ''x''], Sym ''x''])
        [(Sym ''x'', Sym ''a''), (Op (Function ''f'') [Sym ''x''], Sym ''b'')]
      = Op Add [Op (Function ''f'') [Sym ''a''], Sym ''a'']"
proof -
  have ord: "order_unordered (\<lambda>n. Some (int (length (args n)))) (size :: node \<Rightarrow> nat)
      (\<lambda>(k, v). size k)
      (dict_of (drop_same [(Sym ''x'', Sym ''a''), (Op (Function ''f'') [Sym ''x''], Sym ''b'')]))
    = [(Op (Function ''f'') [Sym ''x''], Sym ''b''), (Sym ''x'', Sym ''a'')]"
    by (simp add: order_unordered_def dict_of_def drop_same_def aresame_def Sym_def Op_def
        is_Symbol_def is_Atom_def ops_of_def keys_eq_def dict_eq_def)
  have lt: "ops_of (\<lambda>n. Some (int (length (args n)))) (Sym ''x'')
       < ops_of (\<lambda>n. Some (int (length (args n)))) (Op (Function ''f'') [Sym ''x''])"
    by (simp add: ops_of_def Sym_def Op_def)
  have res: "subs Op (\<lambda>n. Some (int (length (args n)))) (size :: node \<Rightarrow> nat) (\<lambda>(k, v). size k) 0
        (Op Add [Op (Function ''f'') [Sym ''x''], Sym ''x''])
        (Unordered [(Sym ''x'', Sym ''a''), (Op (Function ''f'') [Sym ''x''], Sym ''b'')]) False
      = Inr (Op Add [Sym ''b'', Sym ''a''])"
    by (simp add: subs_def subs_apply_def ord)
       (simp add: subs_pair_def aresame_def Sym_def Op_def is_Symbol_def keys_eq_def dict_eq_def)
  have asc: "subs_sequential Op (Op Add [Op (Function ''f'') [Sym ''x''], Sym ''x''])
        [(Sym ''x'', Sym ''a''), (Op (Function ''f'') [Sym ''x''], Sym ''b'')]
      = Op Add [Op (Function ''f'') [Sym ''a''], Sym ''a'']"
    by (simp add: subs_pair_def aresame_def Sym_def Op_def is_Symbol_def keys_eq_def dict_eq_def)
  from ord lt res asc show ?thesis by blast
qed

subsection \<open>Simultaneous substitution\<close>

text \<open>
  The predicates on the nodes of a tree, one node at a time.
\<close>

lemma made_since_DummyN: "made_since cnt (DummyN j) = (cnt \<le> j)"
  by (simp add: DummyN_def)

lemma fresh_Node:
  "fresh cnt (Node c p k kv as) = (\<not> made_since cnt (Node c p k kv as) \<and> list_all (fresh cnt) as)"
  by (induction as) (auto simp: fresh_def list_all_iff)

lemma occurs_Node:
  "occurs old (Node c p k kv as) = (aresame (Node c p k kv as) old \<or> list_ex (occurs old) as)"
  by (auto simp: occurs_def list_ex_iff)

lemma leaves_Node:
  "atoms_are_leaves (Node c p k kv as)
     = ((\<not> issubclass c Atom \<or> as = []) \<and> list_all atoms_are_leaves as)"
  by (auto simp: atoms_are_leaves_def list_all_iff is_Atom_def)

lemma tuple_eq_all2: "tuple_eq xs ys = list_all2 (\<lambda>x y. node_eq x (VNode y)) xs ys"
  by (induction xs ys rule: list_induct2') (simp_all del: node_eq.simps)

text \<open>
  Two nodes that are \<^verbatim>\<open>_aresame\<close> have the same shape: the same class and the same plain
  content at every pair of corresponding nodes (\<open>compare0\<close>). This is so although \<^verbatim>\<open>==\<close>
  strips powers with exponent 1, because \<^verbatim>\<open>_aresame\<close> also compares the types along the
  two traversals. So a tree that holds a dummy made after \<open>cnt\<close> is not the same as a
  tree that holds none.
\<close>

lemma same_shape_args:
  assumes "\<And>x b X Y. x \<in> set xs \<Longrightarrow> list_all Q (zip (preorder x @ X) (preorder b @ Y))
             \<Longrightarrow> compare0 x b \<and> length (preorder x) = length (preorder b)"
    and "length xs = length ys"
    and "list_all Q (zip (concat (map preorder xs) @ X) (concat (map preorder ys) @ Y))"
  shows "list_all2 compare0 xs ys
         \<and> length (concat (map preorder xs)) = length (concat (map preorder ys))"
  using assms(2,1,3)
proof (induction xs ys rule: list_induct2)
  case Nil
  show ?case by simp
next
  case (Cons x xs y ys)
  from Cons.prems(2)
  have z: "list_all Q (zip (preorder x @ (concat (map preorder xs) @ X))
                           (preorder y @ (concat (map preorder ys) @ Y)))"
    by simp
  have xy: "compare0 x y \<and> length (preorder x) = length (preorder y)"
    by (rule Cons.prems(1) [OF _ z]) simp
  then have l: "length (preorder x) = length (preorder y)" by (rule conjunct2)
  from z have rest: "list_all Q (zip (concat (map preorder xs) @ X)
                                     (concat (map preorder ys) @ Y))"
    by (simp only: zip_append [OF l] list_all_append)
  have "list_all2 compare0 xs ys
         \<and> length (concat (map preorder xs)) = length (concat (map preorder ys))"
  proof (rule Cons.IH)
    fix x' b X' Y'
    assume m: "x' \<in> set xs"
      and q: "list_all Q (zip (preorder x' @ X') (preorder b @ Y'))"
    from m have m': "x' \<in> set (x # xs)" by simp
    from m' q show "compare0 x' b \<and> length (preorder x') = length (preorder b)"
      by (rule Cons.prems(1))
  next
    show "list_all Q (zip (concat (map preorder xs) @ X) (concat (map preorder ys) @ Y))"
      by (rule rest)
  qed
  with xy show ?case by simp
qed

lemma same_shape:
  "list_all (\<lambda>(i, j). node_eq i (VNode j) \<and> ntype i = ntype j)
       (zip (preorder a @ X) (preorder b @ Y))
   \<Longrightarrow> compare0 a b \<and> length (preorder a) = length (preorder b)"
proof (induction a arbitrary: b X Y)
  case (Node c p k kv as)
  obtain c' p' k' kv' as' where b: "b = Node c' p' k' kv' as'" by (cases b)
  from Node.prems b
  have root: "node_eq (Node c p k kv as) (VNode (Node c' p' k' kv' as'))" and cc: "c = c'"
    and rest: "list_all (\<lambda>(i, j). node_eq i (VNode j) \<and> ntype i = ntype j)
       (zip (concat (map preorder as) @ X) (concat (map preorder as') @ Y))"
    by (auto simp del: node_eq.simps)
  from root cc have pp: "p = p'" and te: "tuple_eq as as'" by simp_all
  from te have len: "length as = length as'" by (simp add: tuple_eq_all2 list_all2_lengthD)
  have "list_all2 compare0 as as'
         \<and> length (concat (map preorder as)) = length (concat (map preorder as'))"
    using Node.IH len rest by (rule same_shape_args)
  with cc pp b show ?case by simp
qed

lemma aresame_compare0:
  assumes "aresame a b"
  shows "compare0 a b"
proof (cases "compare0 a b \<and> is_Symbol a \<and> is_Symbol b")
  case True
  then show ?thesis by simp
next
  case False
  with assms
  have "list_all (\<lambda>(i, j). node_eq i (VNode j) \<and> ntype i = ntype j)
          (zip (preorder a @ []) (preorder b @ []))"
    by (simp add: aresame_def del: node_eq.simps)
  then show ?thesis by (rule same_shape [THEN conjunct1])
qed

lemma compare0_fresh: "compare0 a b \<Longrightarrow> fresh cnt a = fresh cnt b"
proof (induction a arbitrary: b)
  case (Node c p k kv as)
  obtain c' p' k' kv' as' where b: "b = Node c' p' k' kv' as'" by (cases b)
  from Node.prems b have cc: "c = c'" and pp: "p = p'" and l2: "list_all2 compare0 as as'"
    by simp_all
  from l2 Node.IH have "list_all (fresh cnt) as = list_all (fresh cnt) as'"
    by (induction rule: list_all2_induct) simp_all
  then show ?case by (simp add: fresh_Node b cc pp)
qed

lemma aresame_fresh: "aresame a b \<Longrightarrow> fresh cnt a = fresh cnt b"
  by (rule compare0_fresh, rule aresame_compare0)

text \<open>
  A tree that holds a placeholder is not \<^verbatim>\<open>_aresame\<close> as an old side without one.
\<close>

lemma has_placeholder_iff:
  "has_placeholder cnt t = (\<exists>j\<ge>cnt. DummyN j \<in> set (preorder t))"
proof
  assume "has_placeholder cnt t"
  then obtain n where n: "n \<in> set (preorder t)"
    and c: "case payload n of [b, s, RInt i] \<Rightarrow> int cnt \<le> i \<and> n = DummyN (nat i) | _ \<Rightarrow> False"
    by (auto simp: has_placeholder_def list_ex_iff)
  from c obtain i where "int cnt \<le> i" "n = DummyN (nat i)"
    by (auto split: list.splits raw.splits simp: neq_Nil_conv)
  with n have "cnt \<le> nat i \<and> DummyN (nat i) \<in> set (preorder t)" by simp
  then show "\<exists>j\<ge>cnt. DummyN j \<in> set (preorder t)" by blast
next
  assume "\<exists>j\<ge>cnt. DummyN j \<in> set (preorder t)"
  then obtain j where j: "cnt \<le> j" "DummyN j \<in> set (preorder t)" by blast
  have "case payload (DummyN j) of
          [b, s, RInt i] \<Rightarrow> int cnt \<le> i \<and> DummyN j = DummyN (nat i) | _ \<Rightarrow> False"
    using j(1) by (simp add: DummyN_def)
  with j(2) show "has_placeholder cnt t"
    unfolding has_placeholder_def list_ex_iff by blast
qed

lemma hp_not_fresh: "has_placeholder cnt t \<Longrightarrow> \<not> fresh cnt t"
  unfolding has_placeholder_iff fresh_def list_all_iff using made_since_DummyN by blast

lemma hp_Node:
  "has_placeholder cnt (Node c p k kv as)
     = ((\<exists>j\<ge>cnt. Node c p k kv as = DummyN j) \<or> list_ex (has_placeholder cnt) as)"
  by (auto simp: has_placeholder_iff list_ex_iff)

lemma hp_Op: "has_placeholder cnt (Op c xs) = list_ex (has_placeholder cnt) xs"
  by (simp add: Op_def hp_Node DummyN_def)

lemma hp_DummyN: "cnt \<le> j \<Longrightarrow> has_placeholder cnt (DummyN j)"
  by (cases "DummyN j") (auto simp: has_placeholder_iff)

lemma hp_not_same: "has_placeholder cnt t \<Longrightarrow> fresh cnt old \<Longrightarrow> \<not> aresame t old"
  using aresame_fresh [of t old cnt] hp_not_fresh [of cnt t] by blast

text \<open>
  \<^verbatim>\<open>_subs\<close> returns another object exactly when \<open>old\<close> occurs in the node; below a node
  that is not the same as \<open>old\<close> it is \<^verbatim>\<open>_subs\<close> on every argument.
\<close>

lemma subs_hit_Some: "(\<exists>y. subs_hit f t old new = Some y) = occurs old t"
proof (induction t)
  case (Node c p k kv as)
  have "list_ex (\<lambda>r. r \<noteq> None) (map (\<lambda>arg. subs_hit f arg old new) as)
        = list_ex (occurs old) as"
    using Node.IH by (simp add: list_ex_iff)
  then show ?case by (simp add: occurs_Node Let_def)
qed

lemma subs_hit_None: "\<not> occurs old t \<Longrightarrow> subs_hit f t old new = None"
  using subs_hit_Some [of f t old new] by simp

lemma subs_pair_id: "\<not> occurs old t \<Longrightarrow> subs_pair f t old new = t"
  by (simp add: subs_pair_def subs_hit_None)

lemma subs_pair_Node:
  "subs_pair f (Node c p k kv as) old new =
     (if aresame (Node c p k kv as) old then new
      else if list_ex (occurs old) as then f c (map (\<lambda>a. subs_pair f a old new) as)
      else Node c p k kv as)"
proof -
  have m: "map2 (\<lambda>arg r. case r of None \<Rightarrow> arg | Some arg' \<Rightarrow> arg') as
             (map (\<lambda>arg. subs_hit f arg old new) as)
           = map (\<lambda>a. subs_pair f a old new) as"
    by (induction as) (simp_all add: subs_pair_def)
  have e: "list_ex (\<lambda>r. r \<noteq> None) (map (\<lambda>arg. subs_hit f arg old new) as)
           = list_ex (occurs old) as"
    using subs_hit_Some [of f _ old new] by (simp add: list_ex_iff)
  show ?thesis
    unfolding subs_pair_def subs_hit.simps Let_def m e by simp
qed

text \<open>
  The first phase. A node that holds a placeholder keeps it under the pairs that follow,
  and a node that was built again over a placeholder is never the same as a later old
  side, so the later pairs go on into its arguments. Hence replacing the old sides by
  their placeholders, one pair after the other, is the substitution of all pairs at once
  with the placeholders as new sides.
\<close>

lemma subs_pair_keeps_hp:
  "has_placeholder cnt t \<Longrightarrow> fresh cnt old \<Longrightarrow> has_placeholder cnt (subs_pair Op t old new)"
proof (induction t)
  case (Node c p k kv as)
  from Node.prems have ns: "\<not> aresame (Node c p k kv as) old" by (rule hp_not_same)
  show ?case
  proof (cases "list_ex (occurs old) as")
    case False
    with ns Node.prems(1) show ?thesis by (simp add: subs_pair_Node)
  next
    case True
    then have "as \<noteq> []" by auto
    then have "\<forall>j. Node c p k kv as \<noteq> DummyN j" by (auto simp: DummyN_def)
    with Node.prems(1) have "list_ex (has_placeholder cnt) as" by (simp add: hp_Node)
    then obtain a where a: "a \<in> set as" "has_placeholder cnt a" by (auto simp: list_ex_iff)
    from a Node.prems(2) have "has_placeholder cnt (subs_pair Op a old new)" by (rule Node.IH)
    with a(1) have "list_ex (has_placeholder cnt) (map (\<lambda>a. subs_pair Op a old new) as)"
      by (auto simp: list_ex_iff)
    with ns True show ?thesis by (simp add: subs_pair_Node hp_Op)
  qed
qed

lemma occurs_gives_hp:
  "occurs old t \<Longrightarrow> cnt \<le> j \<Longrightarrow> has_placeholder cnt (subs_pair Op t old (DummyN j))"
proof (induction t)
  case (Node c p k kv as)
  show ?case
  proof (cases "aresame (Node c p k kv as) old")
    case True
    with Node.prems(2) show ?thesis by (simp add: subs_pair_Node hp_DummyN)
  next
    case False
    with Node.prems(1) have ex: "list_ex (occurs old) as" by (simp add: occurs_Node)
    then obtain a where a: "a \<in> set as" "occurs old a" by (auto simp: list_ex_iff)
    from a Node.prems(2) have "has_placeholder cnt (subs_pair Op a old (DummyN j))"
      by (rule Node.IH)
    with a(1) have "list_ex (has_placeholder cnt) (map (\<lambda>a. subs_pair Op a old (DummyN j)) as)"
      by (auto simp: list_ex_iff)
    with False ex show ?thesis by (simp add: subs_pair_Node hp_Op)
  qed
qed

lemma placeholder_stays:
  "list_all (\<lambda>(old, new). fresh cnt old) prs \<Longrightarrow> cnt \<le> j
   \<Longrightarrow> subs_sequential f (DummyN j) prs = DummyN j"
proof (induction prs)
  case Nil
  show ?case by simp
next
  case (Cons pr prs)
  obtain old new where pr: "pr = (old, new)" by (cases pr)
  from Cons.prems pr have fo: "fresh cnt old" by simp
  from Cons.prems(2) have "has_placeholder cnt (DummyN j)" by (rule hp_DummyN)
  then have "\<not> aresame (DummyN j) old" using fo by (rule hp_not_same)
  then have "subs_pair f (DummyN j) old new = DummyN j"
    by (simp add: DummyN_def subs_pair_Node)
  with Cons pr show ?case by simp
qed

lemma rebuilt_stays_rebuilt:
  "list_ex (has_placeholder cnt) xs \<Longrightarrow> list_all (\<lambda>(old, new). fresh cnt old) prs
   \<Longrightarrow> subs_sequential Op (Op c xs) prs = Op c (map (\<lambda>x. subs_sequential Op x prs) xs)"
proof (induction prs arbitrary: xs)
  case Nil
  show ?case by simp
next
  case (Cons pr prs)
  obtain old new where pr: "pr = (old, new)" by (cases pr)
  from Cons.prems pr have fo: "fresh cnt old"
    and fr: "list_all (\<lambda>(old, new). fresh cnt old) prs" by simp_all
  have "has_placeholder cnt (Op c xs)" using Cons.prems(1) by (simp add: hp_Op)
  then have ns: "\<not> aresame (Op c xs) old" using fo by (rule hp_not_same)
  have step: "subs_pair Op (Op c xs) old new = Op c (map (\<lambda>x. subs_pair Op x old new) xs)"
  proof (cases "list_ex (occurs old) xs")
    case True
    with ns show ?thesis by (simp add: Op_def subs_pair_Node)
  next
    case False
    then have "map (\<lambda>x. subs_pair Op x old new) xs = xs"
      by (simp add: list_ex_iff subs_pair_id map_idI)
    with False ns show ?thesis by (simp add: Op_def subs_pair_Node)
  qed
  have "list_ex (has_placeholder cnt) (map (\<lambda>x. subs_pair Op x old new) xs)"
  proof -
    from Cons.prems(1) obtain x where x: "x \<in> set xs" "has_placeholder cnt x"
      by (auto simp: list_ex_iff)
    from x(2) fo have "has_placeholder cnt (subs_pair Op x old new)"
      by (rule subs_pair_keeps_hp)
    with x(1) show ?thesis by (auto simp: list_ex_iff)
  qed
  from this fr
  have "subs_sequential Op (Op c (map (\<lambda>x. subs_pair Op x old new) xs)) prs
        = Op c (map (\<lambda>x. subs_sequential Op x prs) (map (\<lambda>x. subs_pair Op x old new) xs))"
    by (rule Cons.IH)
  then show ?case by (simp add: pr step comp_def)
qed

lemma parallel_subs_skip:
  "\<not> occurs old t \<Longrightarrow> parallel_subs ((old, new) # prs) t = parallel_subs prs t"
proof (induction t)
  case (Node c p k kv as)
  from Node.prems have na: "\<forall>a\<in>set as. \<not> occurs old a"
    by (simp add: occurs_Node list_ex_iff)
  have m: "map (parallel_subs ((old, new) # prs)) as = map (parallel_subs prs) as"
    by (rule map_cong [OF refl]) (rule Node.IH, assumption, simp add: na)
  show ?case unfolding parallel_subs.simps m using Node.prems by simp
qed

lemma sequential_is_parallel:
  "list_all (\<lambda>(old, d). fresh cnt old \<and> (\<exists>j\<ge>cnt. d = DummyN j)) prs
   \<Longrightarrow> subs_sequential Op t prs = parallel_subs prs t"
proof (induction t arbitrary: prs)
  case (Node c p k kv as)
  from Node.prems show ?case
  proof (induction prs)
    case Nil
    show ?case by simp
  next
    case (Cons pr rest)
    obtain old d where pr: "pr = (old, d)" by (cases pr)
    from Cons.prems pr obtain j where fo: "fresh cnt old" and j: "cnt \<le> j"
      and d: "d = DummyN j"
      and fr: "list_all (\<lambda>(old, d). fresh cnt old \<and> (\<exists>j\<ge>cnt. d = DummyN j)) rest"
      by auto
    from fr have olds: "list_all (\<lambda>(old, new). fresh cnt old) rest"
      by (auto simp: list_all_iff)
    show ?case
    proof (cases "occurs old (Node c p k kv as)")
      case False
      then have "subs_pair Op (Node c p k kv as) old d = Node c p k kv as"
        by (rule subs_pair_id)
      moreover from fr have "subs_sequential Op (Node c p k kv as) rest
          = parallel_subs rest (Node c p k kv as)" by (rule Cons.IH)
      moreover from False have "parallel_subs ((old, d) # rest) (Node c p k kv as)
          = parallel_subs rest (Node c p k kv as)" by (rule parallel_subs_skip)
      ultimately show ?thesis by (simp add: pr del: parallel_subs.simps)
    next
      case oc: True
      show ?thesis
      proof (cases "aresame (Node c p k kv as) old")
        case True
        then have "subs_pair Op (Node c p k kv as) old d = d" by (simp add: subs_pair_Node)
        moreover have "subs_sequential Op d rest = d"
          unfolding d using olds j by (rule placeholder_stays)
        ultimately show ?thesis using True oc by (simp add: pr)
      next
        case False
        with oc have ex: "list_ex (occurs old) as" by (simp add: occurs_Node)
        have sp: "subs_pair Op (Node c p k kv as) old d
                    = Op c (map (\<lambda>a. subs_pair Op a old d) as)"
          using False ex by (simp add: subs_pair_Node)
        have hp: "list_ex (has_placeholder cnt) (map (\<lambda>a. subs_pair Op a old d) as)"
        proof -
          from ex obtain a where a: "a \<in> set as" "occurs old a" by (auto simp: list_ex_iff)
          from a(2) j have "has_placeholder cnt (subs_pair Op a old (DummyN j))"
            by (rule occurs_gives_hp)
          with a(1) d show ?thesis by (auto simp: list_ex_iff)
        qed
        have args: "map (\<lambda>a. subs_sequential Op a (pr # rest)) as
                      = map (parallel_subs (pr # rest)) as"
          by (rule map_cong [OF refl]) (rule Node.IH, assumption, rule Cons.prems)
        have "subs_sequential Op (Node c p k kv as) (pr # rest)
                = subs_sequential Op (Op c (map (\<lambda>a. subs_pair Op a old d) as)) rest"
          by (simp add: pr sp)
        also have "\<dots> = Op c (map (\<lambda>x. subs_sequential Op x rest)
                                 (map (\<lambda>a. subs_pair Op a old d) as))"
          using hp olds by (rule rebuilt_stays_rebuilt)
        also have "\<dots> = Op c (map (\<lambda>a. subs_sequential Op a (pr # rest)) as)"
          by (simp add: pr comp_def)
        also have "\<dots> = Op c (map (parallel_subs (pr # rest)) as)"
          by (simp only: args)
        also have "\<dots> = parallel_subs (pr # rest) (Node c p k kv as)"
          using False oc by (simp add: pr)
        finally show ?thesis .
      qed
    qed
  qed
qed

text \<open>
  The second phase. A tree without a placeholder is not \<^verbatim>\<open>==\<close> to a placeholder and is left
  as it is by \<^verbatim>\<open>xreplace\<close>; a node that holds a placeholder differs (\<^verbatim>\<open>!=\<close>) from the node
  with the new sides in place, so \<^verbatim>\<open>xreplace\<close> builds it again. Hence \<^verbatim>\<open>xreplace\<close> turns the
  substitution with the placeholders into the substitution with the new sides.
\<close>

lemma fresh_not_eq_placeholder_aux:
  "fresh cnt n \<Longrightarrow> cnt \<le> j
   \<Longrightarrow> \<not> eq_widen n (VNode (DummyN j)) \<and> \<not> node_eq n (VNode (DummyN j))"
proof (induction n)
  case (Node c p k kv as)
  from Node.prems have root: "\<not> (c = Dummy \<and> p = [RBool True, RStr ''Dummy'', RInt (int j)])"
    by (auto simp: fresh_Node)
  then have strip: "\<not> eq_strip_other (Node c p k kv as) (VNode (DummyN j))"
    by (simp add: DummyN_def)
  have widen: "\<not> eq_widen (Node c p k kv as) (VNode (DummyN j))"
  proof (cases as)
    case Nil
    with strip show ?thesis by simp
  next
    case c1: (Cons b as1)
    show ?thesis
    proof (cases as1)
      case Nil
      with c1 strip show ?thesis by simp
    next
      case c2: (Cons e rest)
      from Node.prems(1) c1 have "fresh cnt b" by (simp add: fresh_Node)
      with Node.IH [of b] c1 Node.prems(2) have "\<not> eq_widen b (VNode (DummyN j))" by simp
      with strip c1 c2 show ?thesis by (simp del: node_eq.simps)
    qed
  qed
  have "\<not> node_eq (Node c p k kv as) (VNode (DummyN j))"
  proof (cases "c = Dummy")
    case True
    with root show ?thesis by (simp add: DummyN_def)
  next
    case False
    with widen show ?thesis by (simp add: DummyN_def)
  qed
  with widen show ?case by simp
qed

lemma fresh_not_eq_placeholder:
  "fresh cnt n \<Longrightarrow> cnt \<le> j \<Longrightarrow> \<not> node_eq n (VNode (DummyN j))"
  using fresh_not_eq_placeholder_aux by blast

lemma xreplace_fresh:
  "fresh cnt t \<Longrightarrow> \<forall>k\<in>fst ` set reps. \<exists>j\<ge>cnt. k = DummyN j \<Longrightarrow> xreplace f t reps = t"
proof (induction t)
  case (Node c p k kv as)
  have "Node c p k kv as \<notin> fst ` set reps"
  proof
    assume "Node c p k kv as \<in> fst ` set reps"
    with Node.prems(2) obtain j where j: "cnt \<le> j" "Node c p k kv as = DummyN j" by blast
    from j(1) have "made_since cnt (DummyN j)" by (simp add: made_since_DummyN)
    with j(2) have "made_since cnt (Node c p k kv as)" by simp
    with Node.prems(1) show False by (simp add: fresh_Node)
  qed
  then have nk: "map_of reps (Node c p k kv as) = None" by (simp add: map_of_eq_None_iff)
  have m: "map (\<lambda>arg. xreplace f arg reps) as = as"
  proof (rule map_idI)
    fix a assume a: "a \<in> set as"
    with Node.prems(1) have "fresh cnt a" by (simp add: fresh_Node list_all_iff)
    with a show "xreplace f a reps = a" using Node.prems(2) by (rule Node.IH)
  qed
  show ?case unfolding xreplace.simps Let_def nk m by (simp add: tuple_eq_refl)
qed

lemma find_zip:
  assumes "length ds = length prs" "distinct ds"
  shows "(find (\<lambda>(old, new). P old) prs = None
            \<longrightarrow> find (\<lambda>(old, d). P old) (zip (map fst prs) ds) = None)
       \<and> (\<forall>old new. find (\<lambda>(old, new). P old) prs = Some (old, new) \<longrightarrow>
            (\<exists>d\<in>set ds. find (\<lambda>(old, d). P old) (zip (map fst prs) ds) = Some (old, d)
                 \<and> map_of (zip ds (map snd prs)) d = Some new))"
  using assms
proof (induction ds prs rule: list_induct2)
  case Nil
  show ?case by simp
next
  case (Cons d ds pr prs)
  obtain old new where pr: "pr = (old, new)" by (cases pr)
  from Cons.prems have nd: "d \<notin> set ds" and dist: "distinct ds" by simp_all
  note IH = Cons.IH [OF dist]
  show ?case
  proof (cases "P old")
    case True
    then show ?thesis by (simp add: pr)
  next
    case False
    with IH nd show ?thesis by (auto simp: pr)
  qed
qed

lemma swap_placeholders:
  assumes len: "length ds = length prs" and dist: "distinct ds"
    and ph: "\<forall>d\<in>set ds. \<exists>j\<ge>cnt. d = DummyN j"
    and news: "list_all (\<lambda>(old, new). fresh cnt new) prs"
  shows "fresh cnt t \<Longrightarrow> atoms_are_leaves t \<Longrightarrow>
         xreplace Op (parallel_subs (zip (map fst prs) ds) t) (zip ds (map snd prs))
           = parallel_subs prs t
         \<and> (list_ex (\<lambda>(old, new). occurs old t) prs \<longrightarrow>
              \<not> node_eq (parallel_subs prs t)
                   (VNode (parallel_subs (zip (map fst prs) ds) t)))"
proof (induction t)
  case (Node c p k kv as)
  have keys: "\<forall>k\<in>fst ` set (zip ds (map snd prs)). \<exists>j\<ge>cnt. k = DummyN j"
    using ph by (auto dest: set_zip_leftD)
  have IH: "xreplace Op (parallel_subs (zip (map fst prs) ds) a) (zip ds (map snd prs))
              = parallel_subs prs a
            \<and> (list_ex (\<lambda>(old, new). occurs old a) prs \<longrightarrow>
                 \<not> node_eq (parallel_subs prs a)
                      (VNode (parallel_subs (zip (map fst prs) ds) a)))"
    if "a \<in> set as" for a
  proof (rule Node.IH [OF that])
    from that Node.prems(1) show "fresh cnt a" by (simp add: fresh_Node list_all_iff)
    from that Node.prems(2) show "atoms_are_leaves a" by (simp add: leaves_Node list_all_iff)
  qed
  note fz = find_zip [OF len dist, of "\<lambda>old. occurs old (Node c p k kv as)"]
  show ?case
  proof (cases "find (\<lambda>(old, new). occurs old (Node c p k kv as)) prs")
    case None
    with fz have nD: "find (\<lambda>(old, d). occurs old (Node c p k kv as)) (zip (map fst prs) ds)
                        = None" by simp
    from None have no: "\<not> list_ex (\<lambda>(old, new). occurs old (Node c p k kv as)) prs"
      by (auto simp: find_None_iff list_ex_iff)
    have x: "xreplace Op (Node c p k kv as) (zip ds (map snd prs)) = Node c p k kv as"
      using Node.prems(1) keys by (rule xreplace_fresh)
    have pD: "parallel_subs (zip (map fst prs) ds) (Node c p k kv as) = Node c p k kv as"
      unfolding parallel_subs.simps nD by simp
    have pN: "parallel_subs prs (Node c p k kv as) = Node c p k kv as"
      unfolding parallel_subs.simps None by simp
    show ?thesis unfolding pD pN using x no by simp
  next
    case (Some pr)
    obtain old new where pr: "pr = (old, new)" by (cases pr)
    from fz Some pr obtain d where d: "d \<in> set ds"
      and fD: "find (\<lambda>(old, d). occurs old (Node c p k kv as)) (zip (map fst prs) ds)
                 = Some (old, d)"
      and md: "map_of (zip ds (map snd prs)) d = Some new" by auto
    from ph d obtain j where j: "cnt \<le> j" and dj: "d = DummyN j" by auto
    from Some pr have mem: "(old, new) \<in> set prs" and oc: "occurs old (Node c p k kv as)"
      by (auto simp: find_Some_iff in_set_conv_nth)
    from news mem have fn: "fresh cnt new" by (auto simp: list_all_iff)
    show ?thesis
    proof (cases "aresame (Node c p k kv as) old")
      case True
      have pD: "parallel_subs (zip (map fst prs) ds) (Node c p k kv as) = d"
        unfolding parallel_subs.simps fD using True by simp
      have pN: "parallel_subs prs (Node c p k kv as) = new"
        unfolding parallel_subs.simps Some pr using True by simp
      have x: "xreplace Op d (zip ds (map snd prs)) = new"
        using md unfolding dj by (simp add: DummyN_def)
      from fn j have ne: "\<not> node_eq new (VNode d)"
        unfolding dj by (rule fresh_not_eq_placeholder)
      show ?thesis unfolding pD pN using x ne by simp
    next
      case False
      with oc have ex: "list_ex (occurs old) as" by (simp add: occurs_Node)
      then have "as \<noteq> []" by auto
      with Node.prems(2) have na: "\<not> issubclass c Atom" by (simp add: leaves_Node)
      have pD: "parallel_subs (zip (map fst prs) ds) (Node c p k kv as)
                  = Op c (map (parallel_subs (zip (map fst prs) ds)) as)"
        unfolding parallel_subs.simps fD using False by simp
      have pN: "parallel_subs prs (Node c p k kv as) = Op c (map (parallel_subs prs) as)"
        unfolding parallel_subs.simps Some pr using False by simp
      from ex obtain a where a: "a \<in> set as" "occurs old a" by (auto simp: list_ex_iff)
      from a(2) mem have "list_ex (\<lambda>(old, new). occurs old a) prs"
        by (auto simp: list_ex_iff)
      with IH [OF a(1)]
      have "\<not> node_eq (parallel_subs prs a) (VNode (parallel_subs (zip (map fst prs) ds) a))"
        by simp
      with a(1)
      have nt: "\<not> tuple_eq (map (parallel_subs prs) as)
                    (map (parallel_subs (zip (map fst prs) ds)) as)"
        by (auto simp: tuple_eq_all2 list_all2_map1 list_all2_map2 list_all2_same
                 simp del: node_eq.simps)
      have m: "map (\<lambda>arg. xreplace Op arg (zip ds (map snd prs)))
                   (map (parallel_subs (zip (map fst prs) ds)) as)
                 = map (parallel_subs prs) as"
        using IH by simp
      have nk: "map_of (zip ds (map snd prs))
                  (Node c [] None [] (map (parallel_subs (zip (map fst prs) ds)) as)) = None"
      proof -
        have "Node c [] None [] (map (parallel_subs (zip (map fst prs) ds)) as)
                \<notin> fst ` set (zip ds (map snd prs))"
          using keys by (auto simp: DummyN_def)
        then show ?thesis by (simp add: map_of_eq_None_iff)
      qed
      from d len have rne: "zip ds (map snd prs) \<noteq> []" by (cases ds; cases prs) auto
      have x: "xreplace Op (Op c (map (parallel_subs (zip (map fst prs) ds)) as))
                  (zip ds (map snd prs))
                = Op c (map (parallel_subs prs) as)"
        unfolding Op_def xreplace.simps Let_def nk m using na rne nt by simp
      from nt have ne: "\<not> node_eq (Op c (map (parallel_subs prs) as))
                 (VNode (Op c (map (parallel_subs (zip (map fst prs) ds)) as)))"
        by (simp add: Op_def)
      show ?thesis unfolding pD pN using x ne by simp
    qed
  qed
qed

text \<open>
  The loop with \<^verbatim>\<open>simultaneous=True\<close>: its two results, and what \<^verbatim>\<open>subs\<close> returns from them.
\<close>

lemma DummyN_inj: "DummyN i = DummyN j \<longleftrightarrow> i = j"
  by (simp add: DummyN_def)

lemma update_absent: "k \<notin> fst ` set al \<Longrightarrow> AList.update k v al = al @ [(k, v)]"
  by (induction al) auto

lemma simultaneous_loop_two_phases:
  "\<forall>j \<ge> cnt. DummyN j \<notin> fst ` set reps \<Longrightarrow>
   simultaneous_loop func cnt rv reps sequence
     = (subs_sequential func rv
          (zip (map fst sequence) (map DummyN [cnt ..< cnt + length sequence])),
        reps @ zip (map DummyN [cnt ..< cnt + length sequence]) (map snd sequence))"
proof (induction sequence arbitrary: cnt rv reps)
  case Nil
  show ?case by simp
next
  case (Cons pr sequence)
  obtain old new where pr: "pr = (old, new)" by (cases pr)
  have fresh: "DummyN cnt \<notin> fst ` set reps" using Cons.prems by blast
  have upd: "AList.update (DummyN cnt) new reps = reps @ [(DummyN cnt, new)]"
    using fresh by (rule update_absent)
  have next_fresh: "\<forall>j \<ge> Suc cnt. DummyN j \<notin> fst ` set (reps @ [(DummyN cnt, new)])"
    using Cons.prems by (auto simp: DummyN_inj)
  have idx: "[cnt ..< cnt + length (pr # sequence)] = cnt # [Suc cnt ..< Suc cnt + length sequence]"
    using upt_conv_Cons [of cnt "Suc cnt + length sequence"] by simp
  show ?case
    using Cons.IH [OF next_fresh, of "subs_pair func rv old (DummyN cnt)"]
    by (subst (1 2) idx) (simp add: pr Let_def upd del: upt_Suc)
qed

lemma subs_apply_two_phases:
  "subs_apply func True cnt self pairs
     = xreplace func
         (subs_sequential func self
            (zip (map fst pairs) (map DummyN [cnt ..< cnt + length pairs])))
         (zip (map DummyN [cnt ..< cnt + length pairs]) (map snd pairs))"
  using simultaneous_loop_two_phases [of cnt "[]" func self pairs]
  by (simp add: subs_apply_def)

lemma subs_apply_parallel:
  assumes "fresh cnt self" and "atoms_are_leaves self"
    and "list_all (\<lambda>(old, new). fresh cnt old \<and> fresh cnt new) pairs"
  shows "subs_apply Op True cnt self pairs = parallel_subs pairs self"
proof -
  let ?ds = "map DummyN [cnt ..< cnt + length pairs]"
  have len: "length ?ds = length pairs" by simp
  have dist: "distinct ?ds" by (simp add: distinct_map inj_on_def DummyN_inj)
  have ph: "\<forall>d\<in>set ?ds. \<exists>j\<ge>cnt. d = DummyN j" by auto
  from assms(3) have news: "list_all (\<lambda>(old, new). fresh cnt new) pairs"
    by (auto simp: list_all_iff)
  have "list_all (\<lambda>(old, d). fresh cnt old \<and> (\<exists>j\<ge>cnt. d = DummyN j))
          (zip (map fst pairs) ?ds)"
    using assms(3) by (fastforce simp: list_all_iff dest: set_zip_leftD set_zip_rightD)
  then have one: "subs_sequential Op self (zip (map fst pairs) ?ds)
                    = parallel_subs (zip (map fst pairs) ?ds) self"
    by (rule sequential_is_parallel)
  have two: "xreplace Op (parallel_subs (zip (map fst pairs) ?ds) self)
               (zip ?ds (map snd pairs)) = parallel_subs pairs self"
    using swap_placeholders [OF len dist ph news assms(1,2)] by (rule conjunct1)
  show ?thesis unfolding subs_apply_two_phases one two ..
qed

lemma drop_same_all: "list_all P sequence \<Longrightarrow> list_all P (drop_same sequence)"
  by (simp add: drop_same_def list_all_iff)

text \<open>
  C3. With \<^verbatim>\<open>simultaneous=True\<close>, \<^verbatim>\<open>subs\<close> returns the result of two phases, for every
  node, every sequence of pairs (a list, or a \<^verbatim>\<open>dict\<close> or \<^verbatim>\<open>set\<close> after its sorting) and
  every constructor: the old side of each pair is replaced, one pair after the other, by
  a new dummy of its own (the dummies numbered from the class counter on), and then one
  \<^verbatim>\<open>xreplace\<close> swaps all the dummies for the new sides. The new sides take no part in the
  first phase.

  When the counter is ahead of every dummy in the node and in the pairs, as it is for
  dummies made by \<^verbatim>\<open>Dummy()\<close>, and the constructor keeps the arguments as they are, the
  result is the substitution of all pairs at once at every node of the tree: each new
  side is put in as it is, and no pair is applied to the new side of another.

  For \<open>x/y\<close>, that is \<open>x*y**(-1)\<close>, and the pairs \<open>(x, 0)\<close>, \<open>(y, 0)\<close>, with a constructor
  that leaves the three products and powers over the dummies as they are, the result is
  the product built from \<open>0\<close> and the power built from \<open>0\<close> and \<open>-1\<close>: the
  constructors see the new sides only after both old sides are gone, and the partly
  substituted \<open>0*y**(-1)\<close> is never built.
\<close>

theorem simultaneous_subs_two_phases:
  fixes key :: "node \<Rightarrow> 'a::linorder" and pkey :: "node \<times> node \<Rightarrow> 'b::linorder"
  shows
  "subs func count_ops key pkey cnt self (Ordered sequence) True
     = Inr (xreplace func
              (subs_sequential func self
                 (zip (map fst (drop_same sequence))
                      (map DummyN [cnt ..< cnt + length (drop_same sequence)])))
              (zip (map DummyN [cnt ..< cnt + length (drop_same sequence)])
                   (map snd (drop_same sequence))))
   \<and> subs func count_ops key pkey cnt self (Unordered sequence) True
     = Inr (xreplace func
              (subs_sequential func self
                 (zip (map fst (order_unordered count_ops key pkey (dict_of (drop_same sequence))))
                      (map DummyN [cnt ..< cnt + length
                         (order_unordered count_ops key pkey (dict_of (drop_same sequence)))])))
              (zip (map DummyN [cnt ..< cnt + length
                         (order_unordered count_ops key pkey (dict_of (drop_same sequence)))])
                   (map snd (order_unordered count_ops key pkey (dict_of (drop_same sequence))))))
   \<and> (fresh cnt self \<and> atoms_are_leaves self
        \<and> list_all (\<lambda>(old, new). fresh cnt old \<and> fresh cnt new) sequence \<longrightarrow>
      subs Op count_ops key pkey cnt self (Ordered sequence) True
        = Inr (parallel_subs (drop_same sequence) self))
   \<and> (func Mul [DummyN cnt, Op PowC [Sym ''y'', IntN (- 1)]]
          = Op Mul [DummyN cnt, Op PowC [Sym ''y'', IntN (- 1)]]
        \<and> func PowC [DummyN (Suc cnt), IntN (- 1)] = Op PowC [DummyN (Suc cnt), IntN (- 1)]
        \<and> func Mul [DummyN cnt, Op PowC [DummyN (Suc cnt), IntN (- 1)]]
          = Op Mul [DummyN cnt, Op PowC [DummyN (Suc cnt), IntN (- 1)]] \<longrightarrow>
      subs func count_ops key pkey cnt (Op Mul [Sym ''x'', Op PowC [Sym ''y'', IntN (- 1)]])
          (Ordered [(Sym ''x'', IntN 0), (Sym ''y'', IntN 0)]) True
        = Inr (func Mul [IntN 0, func PowC [IntN 0, IntN (- 1)]]))"
proof (intro conjI impI)
  show "subs func count_ops key pkey cnt self (Ordered sequence) True
     = Inr (xreplace func
              (subs_sequential func self
                 (zip (map fst (drop_same sequence))
                      (map DummyN [cnt ..< cnt + length (drop_same sequence)])))
              (zip (map DummyN [cnt ..< cnt + length (drop_same sequence)])
                   (map snd (drop_same sequence))))"
    by (simp add: subs_def subs_apply_two_phases)
next
  show "subs func count_ops key pkey cnt self (Unordered sequence) True
     = Inr (xreplace func
              (subs_sequential func self
                 (zip (map fst (order_unordered count_ops key pkey (dict_of (drop_same sequence))))
                      (map DummyN [cnt ..< cnt + length
                         (order_unordered count_ops key pkey (dict_of (drop_same sequence)))])))
              (zip (map DummyN [cnt ..< cnt + length
                         (order_unordered count_ops key pkey (dict_of (drop_same sequence)))])
                   (map snd (order_unordered count_ops key pkey (dict_of (drop_same sequence))))))"
    by (simp add: subs_def subs_apply_two_phases)
next
  assume a: "fresh cnt self \<and> atoms_are_leaves self
        \<and> list_all (\<lambda>(old, new). fresh cnt old \<and> fresh cnt new) sequence"
  then have "list_all (\<lambda>(old, new). fresh cnt old \<and> fresh cnt new) (drop_same sequence)"
    by (simp add: drop_same_all)
  with a have "subs_apply Op True cnt self (drop_same sequence)
                 = parallel_subs (drop_same sequence) self"
    by (simp add: subs_apply_parallel)
  then show "subs Op count_ops key pkey cnt self (Ordered sequence) True
        = Inr (parallel_subs (drop_same sequence) self)"
    by (simp add: subs_def)
next
  assume h: "func Mul [DummyN cnt, Op PowC [Sym ''y'', IntN (- 1)]]
          = Op Mul [DummyN cnt, Op PowC [Sym ''y'', IntN (- 1)]]
        \<and> func PowC [DummyN (Suc cnt), IntN (- 1)] = Op PowC [DummyN (Suc cnt), IntN (- 1)]
        \<and> func Mul [DummyN cnt, Op PowC [DummyN (Suc cnt), IntN (- 1)]]
          = Op Mul [DummyN cnt, Op PowC [DummyN (Suc cnt), IntN (- 1)]]"
  have ds: "drop_same [(Sym ''x'', IntN 0), (Sym ''y'', IntN 0)]
              = [(Sym ''x'', IntN 0), (Sym ''y'', IntN 0)]"
    by (simp add: drop_same_def aresame_def Sym_def IntN_def is_Symbol_def)
  have idx: "[cnt ..< cnt + 2] = [cnt, Suc cnt]"
    by (simp add: upt_rec)
  from h have p1: "subs_pair func (Op Mul [Sym ''x'', Op PowC [Sym ''y'', IntN (- 1)]])
                (Sym ''x'') (DummyN cnt)
              = Op Mul [DummyN cnt, Op PowC [Sym ''y'', IntN (- 1)]]"
    by (simp add: subs_pair_def aresame_def Sym_def IntN_def Op_def DummyN_def is_Symbol_def
        keys_eq_def dict_eq_def Let_def)
  from h have p2: "subs_pair func (Op Mul [DummyN cnt, Op PowC [Sym ''y'', IntN (- 1)]])
                (Sym ''y'') (DummyN (Suc cnt))
              = Op Mul [DummyN cnt, Op PowC [DummyN (Suc cnt), IntN (- 1)]]"
    by (simp add: subs_pair_def aresame_def Sym_def IntN_def Op_def DummyN_def is_Symbol_def
        keys_eq_def dict_eq_def Let_def)
  have x: "xreplace func (Op Mul [DummyN cnt, Op PowC [DummyN (Suc cnt), IntN (- 1)]])
             [(DummyN cnt, IntN 0), (DummyN (Suc cnt), IntN 0)]
           = func Mul [IntN 0, func PowC [IntN 0, IntN (- 1)]]"
    by (simp add: Sym_def IntN_def Op_def DummyN_def keys_eq_def Let_def)
  show "subs func count_ops key pkey cnt (Op Mul [Sym ''x'', Op PowC [Sym ''y'', IntN (- 1)]])
          (Ordered [(Sym ''x'', IntN 0), (Sym ''y'', IntN 0)]) True
        = Inr (func Mul [IntN 0, func PowC [IntN 0, IntN (- 1)]])"
    by (simp add: subs_def subs_apply_two_phases ds idx p1 p2 x)
qed

text \<open>
  Witness for C3. In \<^verbatim>\<open>Basic(x, Basic(y))\<close> the pairs \<open>(x, y)\<close>, \<open>(y, x)\<close> swap the two
  symbols when they are applied at once (one after the other they give
  \<^verbatim>\<open>Basic(x, Basic(x))\<close>). With the sample of evaluating constructors, the pairs \<open>(x, 0)\<close>,
  \<open>(y, 0)\<close> turn \<open>x/y\<close> into \<^verbatim>\<open>nan\<close> when they are applied at once and into \<open>0\<close> one
  after the other, as the docstring of \<^verbatim>\<open>subs\<close> has it.
\<close>

theorem simultaneous_subs_two_phases_witness:
  "fresh 0 (Op Basic [Sym ''x'', Op Basic [Sym ''y'']])
   \<and> atoms_are_leaves (Op Basic [Sym ''x'', Op Basic [Sym ''y'']])
   \<and> list_all (\<lambda>(old, new). fresh 0 old \<and> fresh 0 new)
        [(Sym ''x'', Sym ''y''), (Sym ''y'', Sym ''x'')]
   \<and> subs Op (\<lambda>n. None) (size :: node \<Rightarrow> nat) (\<lambda>(k, v). size k) 0
        (Op Basic [Sym ''x'', Op Basic [Sym ''y'']])
        (Ordered [(Sym ''x'', Sym ''y''), (Sym ''y'', Sym ''x'')]) True
      = Inr (Op Basic [Sym ''y'', Op Basic [Sym ''x'']])
   \<and> subs Op (\<lambda>n. None) (size :: node \<Rightarrow> nat) (\<lambda>(k, v). size k) 0
        (Op Basic [Sym ''x'', Op Basic [Sym ''y'']])
        (Ordered [(Sym ''x'', Sym ''y''), (Sym ''y'', Sym ''x'')]) False
      = Inr (Op Basic [Sym ''x'', Op Basic [Sym ''x'']])
   \<and> sample_func Mul [DummyN 0, Op PowC [Sym ''y'', IntN (- 1)]]
      = Op Mul [DummyN 0, Op PowC [Sym ''y'', IntN (- 1)]]
   \<and> sample_func PowC [DummyN (Suc 0), IntN (- 1)] = Op PowC [DummyN (Suc 0), IntN (- 1)]
   \<and> sample_func Mul [DummyN 0, Op PowC [DummyN (Suc 0), IntN (- 1)]]
      = Op Mul [DummyN 0, Op PowC [DummyN (Suc 0), IntN (- 1)]]
   \<and> subs sample_func (\<lambda>n. None) (size :: node \<Rightarrow> nat) (\<lambda>(k, v). size k) 0
        (Op Mul [Sym ''x'', Op PowC [Sym ''y'', IntN (- 1)]])
        (Ordered [(Sym ''x'', IntN 0), (Sym ''y'', IntN 0)]) True
      = Inr nan
   \<and> subs sample_func (\<lambda>n. None) (size :: node \<Rightarrow> nat) (\<lambda>(k, v). size k) 0
        (Op Mul [Sym ''x'', Op PowC [Sym ''y'', IntN (- 1)]])
        (Ordered [(Sym ''x'', IntN 0), (Sym ''y'', IntN 0)]) False
      = Inr (IntN 0)"
proof -
  have f1: "fresh 0 (Op Basic [Sym ''x'', Op Basic [Sym ''y'']])"
    by (simp add: fresh_def Op_def Sym_def)
  have f2: "atoms_are_leaves (Op Basic [Sym ''x'', Op Basic [Sym ''y'']])"
    by (simp add: atoms_are_leaves_def Op_def Sym_def is_Atom_def)
  have f3: "list_all (\<lambda>(old, new). fresh 0 old \<and> fresh 0 new)
        [(Sym ''x'', Sym ''y''), (Sym ''y'', Sym ''x'')]"
    by (simp add: fresh_def Sym_def)
  have h1: "sample_func Mul [DummyN 0, Op PowC [Sym ''y'', IntN (- 1)]]
      = Op Mul [DummyN 0, Op PowC [Sym ''y'', IntN (- 1)]]"
    by (simp add: sample_func_def DummyN_def IntN_def)
  have h2: "sample_func PowC [DummyN (Suc 0), IntN (- 1)]
      = Op PowC [DummyN (Suc 0), IntN (- 1)]"
    by (simp add: sample_func_def DummyN_def IntN_def)
  have h3: "sample_func Mul [DummyN 0, Op PowC [DummyN (Suc 0), IntN (- 1)]]
      = Op Mul [DummyN 0, Op PowC [DummyN (Suc 0), IntN (- 1)]]"
    by (simp add: sample_func_def DummyN_def IntN_def)
  note T = simultaneous_subs_two_phases [of sample_func "\<lambda>n. None" "size :: node \<Rightarrow> nat"
      "\<lambda>(k, v). size k" 0 "Op Basic [Sym ''x'', Op Basic [Sym ''y'']]"
      "[(Sym ''x'', Sym ''y''), (Sym ''y'', Sym ''x'')]"]
  from T f1 f2 f3
  have c2: "subs Op (\<lambda>n. None) (size :: node \<Rightarrow> nat) (\<lambda>(k, v). size k) 0
        (Op Basic [Sym ''x'', Op Basic [Sym ''y'']])
        (Ordered [(Sym ''x'', Sym ''y''), (Sym ''y'', Sym ''x'')]) True
      = Inr (parallel_subs (drop_same [(Sym ''x'', Sym ''y''), (Sym ''y'', Sym ''x'')])
               (Op Basic [Sym ''x'', Op Basic [Sym ''y'']]))"
    by blast
  have pv: "parallel_subs (drop_same [(Sym ''x'', Sym ''y''), (Sym ''y'', Sym ''x'')])
               (Op Basic [Sym ''x'', Op Basic [Sym ''y'']])
            = Op Basic [Sym ''y'', Op Basic [Sym ''x'']]"
    by (simp add: drop_same_def occurs_def aresame_def Sym_def Op_def is_Symbol_def
        keys_eq_def dict_eq_def)
  from T h1 h2 h3
  have c3: "subs sample_func (\<lambda>n. None) (size :: node \<Rightarrow> nat) (\<lambda>(k, v). size k) 0
        (Op Mul [Sym ''x'', Op PowC [Sym ''y'', IntN (- 1)]])
        (Ordered [(Sym ''x'', IntN 0), (Sym ''y'', IntN 0)]) True
      = Inr (sample_func Mul [IntN 0, sample_func PowC [IntN 0, IntN (- 1)]])"
    by blast
  have sv: "sample_func Mul [IntN 0, sample_func PowC [IntN 0, IntN (- 1)]] = nan"
    by (simp add: sample_func_def zoo_def nan_def IntN_def)
  have q2: "subs Op (\<lambda>n. None) (size :: node \<Rightarrow> nat) (\<lambda>(k, v). size k) 0
        (Op Basic [Sym ''x'', Op Basic [Sym ''y'']])
        (Ordered [(Sym ''x'', Sym ''y''), (Sym ''y'', Sym ''x'')]) False
      = Inr (Op Basic [Sym ''x'', Op Basic [Sym ''x'']])"
    by (simp add: subs_def subs_apply_def drop_same_def subs_pair_def aresame_def Sym_def
        Op_def is_Symbol_def keys_eq_def dict_eq_def)
  have q3: "subs sample_func (\<lambda>n. None) (size :: node \<Rightarrow> nat) (\<lambda>(k, v). size k) 0
        (Op Mul [Sym ''x'', Op PowC [Sym ''y'', IntN (- 1)]])
        (Ordered [(Sym ''x'', IntN 0), (Sym ''y'', IntN 0)]) False
      = Inr (IntN 0)"
    by (simp add: subs_def subs_apply_def drop_same_def subs_pair_def aresame_def Sym_def
        Op_def IntN_def is_Symbol_def keys_eq_def dict_eq_def sample_func_def zoo_def nan_def)
  from c2 have c2': "subs Op (\<lambda>n. None) (size :: node \<Rightarrow> nat) (\<lambda>(k, v). size k) 0
        (Op Basic [Sym ''x'', Op Basic [Sym ''y'']])
        (Ordered [(Sym ''x'', Sym ''y''), (Sym ''y'', Sym ''x'')]) True
      = Inr (Op Basic [Sym ''y'', Op Basic [Sym ''x'']])"
    by (simp only: pv)
  from c3 have c3': "subs sample_func (\<lambda>n. None) (size :: node \<Rightarrow> nat) (\<lambda>(k, v). size k) 0
        (Op Mul [Sym ''x'', Op PowC [Sym ''y'', IntN (- 1)]])
        (Ordered [(Sym ''x'', IntN 0), (Sym ''y'', IntN 0)]) True
      = Inr nan"
    by (simp only: sv)
  from f1 f2 f3 c2' q2 h1 h2 h3 c3' q3 show ?thesis by blast
qed


end
